theory Spec2Isabelle
  imports Main "HOL-Library.Sublist"
begin

section \<open>Strings\<close>

text \<open>
  A Python \<open>str\<close> is modelled as a \<open>string\<close>; each \<open>char\<close> stands for one code point
  in the range 0..255, so \<open>length\<close> counts code points as Python's \<open>len\<close> does.
  Code points above 255 are outside the model.
\<close>

text \<open>
  \<open>str.isspace\<close> on one code point, which is also the class \<open>\s\<close> of \<open>re\<close> on
  \<open>str\<close> patterns: U+0009..U+000D, U+001C..U+0020, U+0085 and U+00A0.
\<close>

definition isspace :: "char \<Rightarrow> bool" where
  "isspace c = (let n = (of_char c :: nat) in
     (9 \<le> n \<and> n \<le> 13) \<or> (28 \<le> n \<and> n \<le> 32) \<or> n = 133 \<or> n = 160)"

text \<open>The character class \<open>[.!?]\<close> of the splitting pattern.\<close>

definition is_ender :: "char \<Rightarrow> bool" where
  "is_ender c = (c = CHR ''.'' \<or> c = CHR ''!'' \<or> c = CHR ''?'')"

text \<open>
  The look-behind \<open>(?<=[.!?])\<close>: the character before the current position, if there
  is one, is a sentence ender.
\<close>

definition lookbehind :: "char option \<Rightarrow> bool" where
  "lookbehind prev = (case prev of None \<Rightarrow> False | Some p \<Rightarrow> is_ender p)"

text \<open>\<open>str.strip()\<close> without argument: leading and trailing whitespace removed.\<close>

definition strip :: "string \<Rightarrow> string" where
  "strip s = rev (dropWhile isspace (rev (dropWhile isspace s)))"

text \<open>
  \<open>re.split(r'(?<=[.!?])\s+', text)\<close>. The scan goes left to right; \<open>prev\<close> is the
  character before the current position, \<open>cur\<close> the text since the end of the last match.
  The pattern matches at a position when the look-behind holds there and the character is
  whitespace; \<open>\s+\<close> is greedy and takes the whole run. A match closes the current piece
  and the scan resumes after the run; the end of the text closes the last piece.
\<close>

function re_split :: "char option \<Rightarrow> string \<Rightarrow> string \<Rightarrow> string list" where
  "re_split prev cur [] = [cur]"
| "re_split prev cur (c # cs) =
     (if lookbehind prev \<and> isspace c
      then cur # re_split (Some (last (c # takeWhile isspace cs))) [] (dropWhile isspace cs)
      else re_split (Some c) (cur @ [c]) cs)"
  by pat_completeness auto
termination
  by (relation "measure (\<lambda>(prev, cur, rest). length rest)")
     (auto simp: less_Suc_eq_le length_dropWhile_le)

text \<open>
  \<open>split_text\<close> (app_mira.py, lines 90-92):
  \<^verbatim>\<open>[s.strip() for s in re.split(r'(?<=[.!?])\s+', text) if s.strip()]\<close>
\<close>

definition split_text :: "string \<Rightarrow> string list" where
  "split_text text = [strip s. s \<leftarrow> re_split None [] text, strip s \<noteq> []]"

subsection \<open>The splitter as the specification words it\<close>

text \<open>
  The split positions of the specification: every position immediately following a
  \<open>.\<close>, \<open>!\<close> or \<open>?\<close> at which whitespace follows.
\<close>

definition split_points :: "string \<Rightarrow> nat list" where
  "split_points s = [i \<leftarrow> [0..<length s]. 0 < i \<and> is_ender (s ! (i - 1)) \<and> isspace (s ! i)]"

text \<open>Python's \<open>s[a:b]\<close> for \<open>a \<le> b\<close>.\<close>

definition slice :: "string \<Rightarrow> nat \<Rightarrow> nat \<Rightarrow> string" where
  "slice s a b = take (b - a) (drop a s)"

text \<open>The pieces of \<open>s\<close> between consecutive cut positions \<open>ps\<close>.\<close>

definition pieces_at :: "nat list \<Rightarrow> string \<Rightarrow> string list" where
  "pieces_at ps s = map (\<lambda>(a, b). slice s a b) (zip (0 # ps) (ps @ [length s]))"

text \<open>
  The specified splitter: cut at every split position, trim every piece (which removes the
  whitespace at the split point) and keep the non-empty ones.
\<close>

definition spec_split :: "string \<Rightarrow> string list" where
  "spec_split s = filter (\<lambda>t. t \<noteq> []) (map strip (pieces_at (split_points s) s))"

text \<open>
  Two devices of the proofs: the split positions of a suffix whose preceding character is
  \<open>prev\<close>, and a list of pieces with more text put before its first piece.
\<close>

definition sp :: "char option \<Rightarrow> string \<Rightarrow> nat list" where
  "sp prev s = [i \<leftarrow> [0..<length s].
      lookbehind (if i = 0 then prev else Some (s ! (i - 1))) \<and> isspace (s ! i)]"

fun prepend :: "string \<Rightarrow> string list \<Rightarrow> string list" where
  "prepend u [] = []"
| "prepend u (p # ps) = (u @ p) # ps"

section \<open>The output directory\<close>

text \<open>
  The exceptions the file operations of the program can raise, and a failure of the
  external speech model (its message is carried along).
\<close>

datatype error = FileNotFoundError | IsADirectoryError | PermissionError | UnicodeDecodeError
  | ModelError string

text \<open>
  A sample buffer and the model's encoding of a reference clip; both are opaque to the
  program, which only passes them on.
\<close>

type_synonym waveform = "int list"
type_synonym context_tokens = "nat list"

text \<open>
  An entry of the output directory \<^verbatim>\<open>./static/output/\<close>. Its kind says what the name
  is and what \<open>os.stat\<close>, which follows symbolic links, finds behind it: a regular file,
  a subdirectory, a special file (socket, device), a symbolic link to one of these, a
  symbolic link whose target is missing, or an entry that cannot be examined at all (as
  every entry is when the folder may be listed but not searched). For a link, the
  modification time, the content and the right to overwrite are those of its target; the
  right to unlink is that of the link. Only the order of times matters. \<open>Unreadable\<close>
  stands for content that cannot be read; a \<open>Wave\<close> is binary sample data, which does not
  decode as text. Changes made by other processes while the program runs are not
  modelled.
\<close>

datatype kind = RegularFile | Directory | Special
  | LinkToFile | LinkToDirectory | LinkToSpecial | DanglingLink | NoAccess

datatype file_data = Text string | Wave waveform | Unreadable

record entry =
  e_kind :: kind
  e_mtime :: int
  e_data :: file_data
  e_writable :: bool
  e_removable :: bool

text \<open>
  The directory: its entries by name, in the order in which the operating system
  enumerates them, whether it can be listed, and whether new files can be created in it.
  A path \<^verbatim>\<open>OUTPUT_FOLDER + name\<close> is identified with \<open>name\<close>: the folder prefix holds no
  \<^verbatim>\<open>.wav\<close>, so \<open>str.replace\<close> on a path acts on the name alone.
\<close>

record out_dir =
  listable :: bool
  creatable :: bool
  entries :: "(string \<times> entry) list"

definition MAX_HISTORY :: nat where
  "MAX_HISTORY = 5"

definition OUTPUT_FOLDER :: string where
  "OUTPUT_FOLDER = ''./static/output/''"

text \<open>
  What \<open>os.stat\<close> reports of a kind: whether it succeeds and with which exception it
  fails, and whether what it finds is a regular file or a directory.
\<close>

definition can_stat :: "kind \<Rightarrow> bool" where
  "can_stat k \<longleftrightarrow> k \<noteq> DanglingLink \<and> k \<noteq> NoAccess"

definition stat_error :: "kind \<Rightarrow> error" where
  "stat_error k = (if k = NoAccess then PermissionError else FileNotFoundError)"

definition is_regular :: "kind \<Rightarrow> bool" where
  "is_regular k \<longleftrightarrow> k = RegularFile \<or> k = LinkToFile"

definition is_directory :: "kind \<Rightarrow> bool" where
  "is_directory k \<longleftrightarrow> k = Directory \<or> k = LinkToDirectory"

text \<open>Names are unique in a directory.\<close>

definition wf_dir :: "out_dir \<Rightarrow> bool" where
  "wf_dir d \<longleftrightarrow> distinct (map fst (entries d))"

definition lookup :: "out_dir \<Rightarrow> string \<Rightarrow> entry option" where
  "lookup d n = map_of (entries d) n"

definition unlink :: "string \<Rightarrow> out_dir \<Rightarrow> out_dir" where
  "unlink n d = d\<lparr>entries := filter (\<lambda>x. fst x \<noteq> n) (entries d)\<rparr>"

text \<open>
  \<open>os.listdir\<close> raises when the directory cannot be read. \<open>os.path.isfile\<close> and
  \<open>os.path.exists\<close> follow links and answer \<open>False\<close> where \<open>os.stat\<close> fails;
  \<open>os.path.getmtime\<close> raises there.
\<close>

definition os_listdir :: "out_dir \<Rightarrow> error + string list" where
  "os_listdir d = (if listable d then Inr (map fst (entries d)) else Inl PermissionError)"

definition os_path_isfile :: "out_dir \<Rightarrow> string \<Rightarrow> bool" where
  "os_path_isfile d n = (case lookup d n of None \<Rightarrow> False | Some e \<Rightarrow> is_regular (e_kind e))"

definition os_path_exists :: "out_dir \<Rightarrow> string \<Rightarrow> bool" where
  "os_path_exists d n = (case lookup d n of None \<Rightarrow> False | Some e \<Rightarrow> can_stat (e_kind e))"

definition os_path_getmtime :: "out_dir \<Rightarrow> string \<Rightarrow> error + int" where
  "os_path_getmtime d n =
     (case lookup d n of
        None \<Rightarrow> Inl FileNotFoundError
      | Some e \<Rightarrow> if can_stat (e_kind e) then Inr (e_mtime e) else Inl (stat_error (e_kind e)))"

text \<open>
  \<open>os.remove\<close> raises on a missing path, on a directory, and when the entry may not be
  unlinked; otherwise the entry is gone. It does not follow links: a link is unlinked
  whatever its target.
\<close>

definition os_remove :: "out_dir \<Rightarrow> string \<Rightarrow> error + out_dir" where
  "os_remove d n =
     (case lookup d n of
        None \<Rightarrow> Inl FileNotFoundError
      | Some e \<Rightarrow> if e_kind e = Directory then Inl IsADirectoryError
                 else if e_kind e = NoAccess \<or> \<not> e_removable e then Inl PermissionError
                 else Inr (unlink n d))"

subsection \<open>Startup cleanup\<close>

text \<open>
  The compiled pattern \<^verbatim>\<open>^mira_\d{8}-\d{6}\.(wav|txt)$\<close> used with \<open>match\<close>. The matcher
  reads the pattern left to right, each step returning the text that is left: \<open>lit\<close> for
  literal text, \<open>digits k\<close> for \<^verbatim>\<open>\d{k}\<close> (the decimal digits below code point 256 are
  \<open>0\<close> to \<open>9\<close>), and \<open>at_end\<close> for \<^verbatim>\<open>$\<close>, which holds at the end of the text and also
  just before a line feed that ends the text.
\<close>

fun lit :: "string \<Rightarrow> string \<Rightarrow> string option" where
  "lit [] s = Some s"
| "lit (p # ps) [] = None"
| "lit (p # ps) (c # cs) = (if p = c then lit ps cs else None)"

definition isdecimal :: "char \<Rightarrow> bool" where
  "isdecimal c = (let n = (of_char c :: nat) in 48 \<le> n \<and> n \<le> 57)"

fun digits :: "nat \<Rightarrow> string \<Rightarrow> string option" where
  "digits 0 s = Some s"
| "digits (Suc k) [] = None"
| "digits (Suc k) (c # cs) = (if isdecimal c then digits k cs else None)"

definition at_end :: "string \<Rightarrow> bool" where
  "at_end s = (s = [] \<or> s = [CHR 0x0A])"

definition pattern_match :: "string \<Rightarrow> bool" where
  "pattern_match filename =
     (case Option.bind (Option.bind (Option.bind (Option.bind (lit ''mira_'' filename)
              (digits 8)) (lit ''-'')) (digits 6)) (lit ''.'') of
        None \<Rightarrow> False
      | Some r \<Rightarrow>
          (case lit ''wav'' r of Some r' \<Rightarrow> at_end r' | None \<Rightarrow>
           (case lit ''txt'' r of Some r' \<Rightarrow> at_end r' | None \<Rightarrow> False)))"

text \<open>
  \<open>cleanup_on_launch\<close> (lines 23-34). The body of the loop, for one listed name: an
  entry that \<open>os.path.isfile\<close> accepts (a regular file or a link to one) and whose name
  the pattern rejects is removed, and a failing removal is swallowed. \<open>os.listdir\<close> is
  called outside the \<open>try\<close>. The function returns the exception it ends with, if any,
  and the directory it leaves. Output on the console is not modelled.
\<close>

definition cleanup_step :: "out_dir \<Rightarrow> string \<Rightarrow> out_dir" where
  "cleanup_step d filename =
     (if os_path_isfile d filename then
        (if \<not> pattern_match filename then
           (case os_remove d filename of Inl e \<Rightarrow> d | Inr d' \<Rightarrow> d')
         else d)
      else d)"

definition cleanup_on_launch :: "out_dir \<Rightarrow> (error + unit) \<times> out_dir" where
  "cleanup_on_launch d =
     (case os_listdir d of
        Inl e \<Rightarrow> (Inl e, d)
      | Inr names \<Rightarrow> (Inr (), foldl cleanup_step d names))"

text \<open>
  The naming convention as the specification words it: \<^verbatim>\<open>mira_\<close>, an 8-digit date, a
  dash, a 6-digit time, and the extension \<^verbatim>\<open>.wav\<close> or \<^verbatim>\<open>.txt\<close>, and nothing else.
  \<open>is_timestamp\<close> is the shape of \<^verbatim>\<open>strftime("%Y%m%d-%H%M%S")\<close> for a four-digit year.
\<close>

definition is_timestamp :: "string \<Rightarrow> bool" where
  "is_timestamp s \<longleftrightarrow>
     length s = 15 \<and> list_all isdecimal (take 8 s) \<and> s ! 8 = CHR ''-'' \<and>
     list_all isdecimal (drop 9 s)"

definition correctly_named :: "string \<Rightarrow> bool" where
  "correctly_named n \<longleftrightarrow>
     take 5 n = ''mira_'' \<and> is_timestamp (take 15 (drop 5 n)) \<and>
     (drop 20 n = ''.wav'' \<or> drop 20 n = ''.txt'')"

text \<open>A device of the proofs: the entries that the cleanup removes.\<close>

definition doomed :: "string \<Rightarrow> entry \<Rightarrow> bool" where
  "doomed n e \<longleftrightarrow> is_regular (e_kind e) \<and> \<not> pattern_match n \<and> e_removable e"

subsection \<open>Rotation and history\<close>

text \<open>
  \<open>str.replace(old, new)\<close>: every occurrence of \<open>old\<close>, found left to right without
  overlap, is replaced; an empty \<open>old\<close> matches before every character and at the end.
\<close>

fun str_replace :: "string \<Rightarrow> string \<Rightarrow> string \<Rightarrow> string" where
  "str_replace old new [] = (if old = [] then new else [])"
| "str_replace old new (c # cs) =
     (if old = [] then new @ c # str_replace old new cs
      else if take (length old) (c # cs) = old
        then new @ str_replace old new (drop (length old) (c # cs))
      else c # str_replace old new cs)"

text \<open>
  \<^verbatim>\<open>glob.glob(os.path.join(OUTPUT_FOLDER, "mira_*.wav"))\<close>: the names that start with
  \<^verbatim>\<open>mira_\<close> and end with \<^verbatim>\<open>.wav\<close>, of entries of any kind, in enumeration order. \<open>glob\<close>
  swallows a directory that cannot be read and yields nothing then.
\<close>

definition fnmatch_mira_wav :: "string \<Rightarrow> bool" where
  "fnmatch_mira_wav n \<longleftrightarrow>
     9 \<le> length n \<and> take 5 n = ''mira_'' \<and> drop (length n - 4) n = ''.wav''"

definition glob_mira_wav :: "out_dir \<Rightarrow> string list" where
  "glob_mira_wav d = (if listable d then filter fnmatch_mira_wav (map fst (entries d)) else [])"

text \<open>A loop over a list whose body can raise: the first exception ends it.\<close>

fun mapM :: "('a \<Rightarrow> error + 'b) \<Rightarrow> 'a list \<Rightarrow> error + 'b list" where
  "mapM f [] = Inr []"
| "mapM f (x # xs) =
     (case f x of Inl e \<Rightarrow> Inl e
      | Inr y \<Rightarrow> (case mapM f xs of Inl e \<Rightarrow> Inl e | Inr ys \<Rightarrow> Inr (y # ys)))"

text \<open>
  \<^verbatim>\<open>sorted(paths, key=os.path.getmtime, reverse=True)\<close>: the keys are computed first (and
  \<open>getmtime\<close> can raise); the sort is stable, and with \<open>reverse=True\<close> Python reverses the
  list, sorts it ascending and reverses the result, so that equal keys keep their order.
\<close>

definition sorted_by_mtime_desc :: "out_dir \<Rightarrow> string list \<Rightarrow> error + string list" where
  "sorted_by_mtime_desc d paths =
     (case mapM (os_path_getmtime d) paths of
        Inl e \<Rightarrow> Inl e
      | Inr keys \<Rightarrow> Inr (map snd (rev (sort_key fst (rev (zip keys paths))))))"

text \<open>
  \<open>rotate_files\<close> (lines 36-51). The body of the loop, for one audio file beyond the
  first \<open>MAX_HISTORY\<close>: the \<open>try\<close> block removes the audio file and then, if it exists, the
  sidecar; an exception at either removal leaves the block and is printed. \<open>glob\<close> and
  \<open>sorted\<close> are called outside the \<open>try\<close>: an exception of \<open>os.path.getmtime\<close> leaves
  \<open>rotate_files\<close> before anything is removed.
\<close>

definition rotate_step :: "out_dir \<Rightarrow> string \<Rightarrow> out_dir" where
  "rotate_step d wav_path =
     (case os_remove d wav_path of
        Inl e \<Rightarrow> d
      | Inr d1 \<Rightarrow>
          (let txt_path = str_replace ''.wav'' ''.txt'' wav_path in
           if os_path_exists d1 txt_path
           then (case os_remove d1 txt_path of Inl e \<Rightarrow> d1 | Inr d2 \<Rightarrow> d2)
           else d1))"

definition rotate_files :: "out_dir \<Rightarrow> (error + unit) \<times> out_dir" where
  "rotate_files d =
     (case sorted_by_mtime_desc d (glob_mira_wav d) of
        Inl e \<Rightarrow> (Inl e, d)
      | Inr wav_files \<Rightarrow>
          (Inr (), if length wav_files > MAX_HISTORY
                   then foldl rotate_step d (drop MAX_HISTORY wav_files)
                   else d))"

text \<open>
  Reading a text file opened with \<^verbatim>\<open>open(path, 'r', encoding='utf-8')\<close>: the default
  universal-newlines mode turns \<open>\r\n\<close> and a lone \<open>\r\<close> into \<open>\n\<close>. Opening follows
  links; it raises on a missing path, on an entry that cannot be reached and on a
  directory, and reading raises on content that cannot be read or decoded.
\<close>

fun universal_newlines :: "string \<Rightarrow> string" where
  "universal_newlines (c # d # cs) =
     (if c = CHR 0x0D \<and> d = CHR 0x0A then CHR 0x0A # universal_newlines cs
      else if c = CHR 0x0D then CHR 0x0A # universal_newlines (d # cs)
      else c # universal_newlines (d # cs))"
| "universal_newlines [c] = (if c = CHR 0x0D then [CHR 0x0A] else [c])"
| "universal_newlines [] = []"

definition read_text :: "out_dir \<Rightarrow> string \<Rightarrow> error + string" where
  "read_text d n =
     (case lookup d n of
        None \<Rightarrow> Inl FileNotFoundError
      | Some e \<Rightarrow>
          if \<not> can_stat (e_kind e) then Inl (stat_error (e_kind e))
          else if is_directory (e_kind e) then Inl IsADirectoryError
          else (case e_data e of
                  Text s \<Rightarrow> Inr (universal_newlines s)
                | Wave w \<Rightarrow> Inl UnicodeDecodeError
                | Unreadable \<Rightarrow> Inl PermissionError))"

text \<open>
  \<open>get_history\<close> (lines 53-69). An item of the history is the dictionary with the keys
  \<open>wav\<close>, \<open>text\<close> and \<open>name\<close>. The body of the loop has no handler: an exception raised by
  reading a sidecar leaves \<open>get_history\<close>.
\<close>

record history_item =
  h_wav :: string
  h_text :: string
  h_name :: string

definition history_entry :: "out_dir \<Rightarrow> string \<Rightarrow> error + history_item" where
  "history_entry d wav_path =
     (let txt_path = str_replace ''.wav'' ''.txt'' wav_path in
      if os_path_exists d txt_path
      then (case read_text d txt_path of
              Inl e \<Rightarrow> Inl e
            | Inr content \<Rightarrow>
                (let full = strip content;
                     preview = (if length full > 60 then take 60 full @ ''...'' else full)
                 in Inr \<lparr>h_wav = OUTPUT_FOLDER @ wav_path, h_text = preview,
                         h_name = wav_path\<rparr>))
      else Inr \<lparr>h_wav = OUTPUT_FOLDER @ wav_path, h_text = ''No text found'',
                h_name = wav_path\<rparr>)"

definition get_history :: "out_dir \<Rightarrow> error + history_item list" where
  "get_history d =
     (case sorted_by_mtime_desc d (glob_mira_wav d) of
        Inl e \<Rightarrow> Inl e
      | Inr wav_files \<Rightarrow> mapM (history_entry d) (take MAX_HISTORY wav_files))"

text \<open>
  Devices of the proofs: the modification time of a name that is present, the audio files
  in the order in which \<open>rotate_files\<close> and \<open>get_history\<close> rank them when every one of
  them can be examined, whether \<open>os.path.getmtime\<close> returns for a name and for every
  name that \<open>glob\<close> yields, and whether the sidecar of an audio file is absent (for
  \<open>os.path.exists\<close>) or can be read as text.
\<close>

definition getmtime_returns :: "out_dir \<Rightarrow> string \<Rightarrow> bool" where
  "getmtime_returns d n = (case os_path_getmtime d n of Inl e \<Rightarrow> False | Inr t \<Rightarrow> True)"

definition audio_stat_ok :: "out_dir \<Rightarrow> bool" where
  "audio_stat_ok d = list_all (getmtime_returns d) (glob_mira_wav d)"

definition mtime_of :: "out_dir \<Rightarrow> string \<Rightarrow> int" where
  "mtime_of d n = (case lookup d n of None \<Rightarrow> 0 | Some e \<Rightarrow> e_mtime e)"

definition ranked :: "out_dir \<Rightarrow> string list" where
  "ranked d = rev (sort_key (mtime_of d) (rev (glob_mira_wav d)))"

definition sidecar_readable :: "out_dir \<Rightarrow> string \<Rightarrow> bool" where
  "sidecar_readable d wav_path =
     (case lookup d (str_replace ''.wav'' ''.txt'' wav_path) of
        None \<Rightarrow> True
      | Some e \<Rightarrow> \<not> can_stat (e_kind e)
                 \<or> (\<not> is_directory (e_kind e)
                     \<and> (case e_data e of Text s \<Rightarrow> True | _ \<Rightarrow> False)))"

subsection \<open>Directory states for the examples\<close>

text \<open>
  A regular file, a subdirectory, a link to a regular file and a link without target, with
  the usual permissions, and a directory that can be listed and written.
\<close>

definition plain :: "int \<Rightarrow> file_data \<Rightarrow> entry" where
  "plain t dat = \<lparr>e_kind = RegularFile, e_mtime = t, e_data = dat, e_writable = True,
                  e_removable = True\<rparr>"

definition subdir :: "int \<Rightarrow> entry" where
  "subdir t = \<lparr>e_kind = Directory, e_mtime = t, e_data = Unreadable, e_writable = True,
               e_removable = True\<rparr>"

definition link_to_file :: "int \<Rightarrow> file_data \<Rightarrow> entry" where
  "link_to_file t dat = \<lparr>e_kind = LinkToFile, e_mtime = t, e_data = dat, e_writable = True,
                         e_removable = True\<rparr>"

definition dangling_link :: entry where
  "dangling_link = \<lparr>e_kind = DanglingLink, e_mtime = 0, e_data = Unreadable, e_writable = True,
                     e_removable = True\<rparr>"

definition dir_of :: "(string \<times> entry) list \<Rightarrow> out_dir" where
  "dir_of es = \<lparr>listable = True, creatable = True, entries = es\<rparr>"

text \<open>
  A directory that holds a correctly named pair and four stray entries: a file that can be
  unlinked, a file that cannot, a file whose name is a correct name followed by a line
  feed, and a link without target.
\<close>

definition mixed_dir :: out_dir where
  "mixed_dir = dir_of
     [(''mira_20240101-120000.wav'', plain 1 (Wave [])),
      (''mira_20240101-120000.txt'', plain 1 (Text ''One.'')),
      (''junk.tmp'', plain 2 (Text ''x'')),
      (''notes.md'', (plain 4 (Text ''x''))\<lparr>e_removable := False\<rparr>),
      (''mira_20240101-120001.wav'' @ [CHR 0x0A], plain 3 (Wave [])),
      (''broken'', dangling_link)]"

section \<open>The generation request\<close>

text \<open>
  Writing a file (\<^verbatim>\<open>sf.write(wav_path, ...)\<close> and \<^verbatim>\<open>open(txt_path, "w")\<close> with
  \<open>f.write\<close>) at time \<open>t\<close>. Opening for writing follows links. A path that is or leads
  to a directory, an entry that cannot be reached, an existing file that may not be
  overwritten and a directory in which nothing can be created raise. An existing entry
  keeps its place and gets the new content and time, and a link whose target was missing
  has a regular file as target afterwards; a new file has the usual permissions and is
  enumerated last. Text is stored as written (a POSIX system, whose line separator is
  \<open>\n\<close>, and an encoding that can represent the text).
\<close>

definition write_file :: "out_dir \<Rightarrow> string \<Rightarrow> file_data \<Rightarrow> int \<Rightarrow> error + out_dir" where
  "write_file d n dat t =
     (case lookup d n of
        None \<Rightarrow>
          if creatable d
          then Inr (d\<lparr>entries := entries d @
                 [(n, \<lparr>e_kind = RegularFile, e_mtime = t, e_data = dat, e_writable = True,
                       e_removable = True\<rparr>)]\<rparr>)
          else Inl PermissionError
      | Some e \<Rightarrow>
          if is_directory (e_kind e) then Inl IsADirectoryError
          else if e_kind e = NoAccess \<or> \<not> e_writable e then Inl PermissionError
          else Inr (d\<lparr>entries := map (\<lambda>x. if fst x = n
                 then (n, e\<lparr>e_kind := (if e_kind e = DanglingLink then LinkToFile else e_kind e),
                           e_mtime := t, e_data := dat\<rparr>)
                 else x) (entries d)\<rparr>))"

text \<open>
  What a request does that can be observed from outside: messages and widgets shown to
  the user, calls of the speech model, file writes, the call of \<open>rotate_files\<close>, the
  pause and the rerun of the script.
\<close>

datatype event =
    St_error string
  | St_error_exception error
  | St_empty
  | Status_info_encoding
  | Status_info_synthesizing nat
  | Status_success_done
  | Progress nat
  | Encode_audio string
  | Batch_generate "string list" "context_tokens list"
  | Sf_write string
  | Write_text string
  | Rotate_files
  | Sleep
  | Rerun

text \<open>
  What a request takes from outside the program: the two operations of the speech model
  (\<open>tts_engine.encode_audio\<close> and \<open>tts_engine.batch_generate\<close>), the conversion of the
  result to an array of 32-bit floats (lines 177-183), the text of
  \<^verbatim>\<open>datetime.now().strftime("%Y%m%d-%H%M%S")\<close>, and the times at which the two files
  are written. Each operation can raise.
\<close>

record env =
  encode_audio :: "string \<Rightarrow> error + context_tokens"
  batch_generate :: "string list \<Rightarrow> context_tokens list \<Rightarrow> error + waveform"
  to_float32 :: "waveform \<Rightarrow> error + waveform"
  now_stamp :: string
  wav_time :: int
  txt_time :: int

text \<open>The state a request runs in: both directories and what has been observed so far.\<close>

record world =
  out :: out_dir
  refs :: "(string \<times> entry) list"
  trace :: "event list"

definition emit :: "event list \<Rightarrow> world \<Rightarrow> world" where
  "emit es w = w\<lparr>trace := trace w @ es\<rparr>"

text \<open>
  The \<open>try\<close> block of the handler (lines 153-202). It returns the exception that left
  the block, if any, and the state reached; files written before an exception stay.
  \<open>st.rerun()\<close> ends the run of the script and is not caught by \<open>except Exception\<close>.
\<close>

definition try_block :: "env \<Rightarrow> world \<Rightarrow> string \<Rightarrow> string \<Rightarrow> error option \<times> world" where
  "try_block env w user_text selected_ref_path =
     (let w1 = emit [Status_info_encoding, Encode_audio selected_ref_path] w in
      case encode_audio env selected_ref_path of
        Inl e \<Rightarrow> (Some e, w1)
      | Inr context_tokens \<Rightarrow>
          (let sentences = split_text user_text;
               total = length sentences in
           if total > 0 then
             (let batch_contexts = replicate total context_tokens;
                  w2 = emit [Status_info_synthesizing total,
                             Batch_generate sentences batch_contexts] w1 in
              case batch_generate env sentences batch_contexts of
                Inl e \<Rightarrow> (Some e, w2)
              | Inr audio_tensor \<Rightarrow>
                  (case to_float32 env audio_tensor of
                     Inl e \<Rightarrow> (Some e, w2)
                   | Inr final_audio \<Rightarrow>
                       (let base_name = ''mira_'' @ now_stamp env;
                            wav_path = base_name @ ''.wav'';
                            txt_path = base_name @ ''.txt'';
                            w3 = emit [Progress 80, Sf_write wav_path] w2 in
                        case write_file (out w3) wav_path (Wave final_audio) (wav_time env) of
                          Inl e \<Rightarrow> (Some e, w3)
                        | Inr d1 \<Rightarrow>
                            (let w4 = emit [Write_text txt_path] (w3\<lparr>out := d1\<rparr>) in
                             case write_file d1 txt_path (Text user_text) (txt_time env) of
                               Inl e \<Rightarrow> (Some e, w4)
                             | Inr d2 \<Rightarrow>
                                 (let w5 = emit [Rotate_files] (w4\<lparr>out := d2\<rparr>) in
                                  case rotate_files d2 of
                                    (Inl e, d3) \<Rightarrow> (Some e, w5\<lparr>out := d3\<rparr>)
                                  | (Inr u, d3) \<Rightarrow>
                                      (None, emit [Progress 100, Status_success_done, Sleep, Rerun]
                                               (w5\<lparr>out := d3\<rparr>)))))))
           else (None, w1)))"

text \<open>
  The handler of the button \<^verbatim>\<open>Generate Audio\<close> (lines 146-205). \<open>selected_ref_path\<close> is
  \<open>None\<close> when no reference voice is selected; \<open>not\<close> holds of \<open>None\<close> and of the empty
  string.
\<close>

definition generate_button_handler :: "env \<Rightarrow> world \<Rightarrow> string \<Rightarrow> string option \<Rightarrow> world" where
  "generate_button_handler env w user_text selected_ref_path =
     (case selected_ref_path of
        None \<Rightarrow> emit [St_error ''Please provide both text and a reference voice.''] w
      | Some path \<Rightarrow>
          if user_text = [] \<or> path = []
          then emit [St_error ''Please provide both text and a reference voice.''] w
          else (case try_block env (emit [St_empty, Progress 0] w) user_text path of
                  (Some e, w') \<Rightarrow> emit [St_error_exception e] w'
                | (None, w') \<Rightarrow> w'))"

subsection \<open>Sequences of requests\<close>



definition succeeded :: "world \<Rightarrow> bool" where
  "succeeded w \<longleftrightarrow> trace w \<noteq> [] \<and> last (trace w) = Rerun"



section \<open>Devices of the proofs about rotation and saving\<close>

text \<open>The sidecar path that \<open>rotate_files\<close> and \<open>get_history\<close> derive from an audio path.\<close>

abbreviation sidecar :: "string \<Rightarrow> string" where
  "sidecar \<equiv> str_replace ''.wav'' ''.txt''"

text \<open>
  An entry that \<open>os.remove\<close> removes; the names that one step of the rotation loop, and
  the whole loop, take out of the directory; and a directory without the entries of given
  names.
\<close>

definition deletable :: "out_dir \<Rightarrow> string \<Rightarrow> bool" where
  "deletable d n = (case lookup d n of None \<Rightarrow> False
                    | Some e \<Rightarrow> e_kind e \<noteq> Directory \<and> e_kind e \<noteq> NoAccess
                                \<and> e_removable e)"

definition gone :: "out_dir \<Rightarrow> string \<Rightarrow> string set" where
  "gone d v = (if deletable d v
               then insert v (if os_path_exists d (sidecar v) \<and> deletable d (sidecar v)
                              then {sidecar v} else {})
               else {})"

fun gone_all :: "out_dir \<Rightarrow> string list \<Rightarrow> string set" where
  "gone_all d [] = {}"
| "gone_all d (v # vs) = gone d v \<union> gone_all (rotate_step d v) vs"

definition without :: "string set \<Rightarrow> out_dir \<Rightarrow> out_dir" where
  "without R d = d\<lparr>entries := filter (\<lambda>x. fst x \<notin> R) (entries d)\<rparr>"


text \<open>The condition under which writing the file of a given name raises nothing.\<close>

definition writable_at :: "out_dir \<Rightarrow> string \<Rightarrow> bool" where
  "writable_at d n = (case lookup d n of None \<Rightarrow> creatable d
                      | Some e \<Rightarrow> \<not> is_directory (e_kind e) \<and> e_kind e \<noteq> NoAccess
                                  \<and> e_writable e)"

subsection \<open>A request state for the examples\<close>

text \<open>
  A speech model that always answers, the clock at noon, and an output directory that
  holds one older generation.
\<close>

definition env0 :: env where
  "env0 = \<lparr>encode_audio = (\<lambda>p. Inr [7]), batch_generate = (\<lambda>ss cs. Inr [1, 2, 3]),
            to_float32 = Inr, now_stamp = ''20240101-120000'', wav_time = 5, txt_time = 5\<rparr>"

definition world0 :: world where
  "world0 = \<lparr>out = dir_of [(''mira_20240101-115959.wav'', plain 3 (Wave [9])),
                            (''mira_20240101-115959.txt'', plain 3 (Text ''Old.''))],
              refs = [], trace = []\<rparr>"

text \<open>
  An empty output directory, and requests for the text \<^verbatim>\<open>Hi. Bye.\<close> made at a given
  timestamp and write time.
\<close>

definition world_empty :: world where
  "world_empty = \<lparr>out = dir_of [], refs = [], trace = []\<rparr>"




text \<open>
  Output directories in which a request does not end as the specification has it: five
  generations whose files carry a later modification time than the one the request writes,
  an older generation whose sidecar cannot be read, and a link without target under the
  name of an audio file.
\<close>

definition world_newer :: world where
  "world_newer = \<lparr>out = dir_of [(''mira_20240101-115955.wav'', plain 9 (Wave [])),
                                 (''mira_20240101-115956.wav'', plain 9 (Wave [])),
                                 (''mira_20240101-115957.wav'', plain 9 (Wave [])),
                                 (''mira_20240101-115958.wav'', plain 9 (Wave [])),
                                 (''mira_20240101-115959.wav'', plain 9 (Wave []))],
                   refs = [], trace = []\<rparr>"

definition world_unreadable :: world where
  "world_unreadable = \<lparr>out = dir_of [(''mira_20240101-115959.wav'', plain 3 (Wave [9])),
                                      (''mira_20240101-115959.txt'', plain 3 Unreadable)],
                        refs = [], trace = []\<rparr>"

definition world_dangling :: world where
  "world_dangling = \<lparr>out = dir_of [(''mira_20240101-115959.wav'', dangling_link)],
                      refs = [], trace = []\<rparr>"




section \<open>Properties of the sentence splitter\<close>

lemma split_points_sp: "split_points s = sp None s"
  unfolding split_points_def sp_def
  by (rule filter_cong) (auto simp: lookbehind_def)

lemma sp_Nil: "sp prev [] = []"
  by (simp add: sp_def)

lemma sp_Cons: "sp prev (c # cs) =
   (if lookbehind prev \<and> isspace c then [0] else []) @ map Suc (sp (Some c) cs)"
proof -
  have "[0..<length (c # cs)] = 0 # map Suc [0..<length cs]"
    by (simp add: upt_conv_Cons map_Suc_upt del: upt_Suc)
  then show ?thesis
    unfolding sp_def
    by (auto simp: filter_map comp_def nth_Cons' intro!: filter_cong arg_cong[where f="map Suc"])
qed

lemma space_not_ender: "isspace c \<Longrightarrow> \<not> is_ender c"
  by (auto simp: isspace_def is_ender_def)

lemma pieces_at_ne: "pieces_at ps s \<noteq> []"
  by (simp add: pieces_at_def)

lemma slice_Cons_Suc: "slice (c # cs) (Suc a) (Suc b) = slice cs a b"
  by (simp add: slice_def)

lemma slice_Cons_0: "slice (c # cs) 0 (Suc b) = c # slice cs 0 b"
  by (simp add: slice_def)

lemma pieces_at_Suc: "pieces_at (map Suc ps) (c # cs) = prepend [c] (pieces_at ps cs)"
proof (cases ps)
  case Nil
  then show ?thesis by (simp add: pieces_at_def slice_def)
next
  case (Cons p qs)
  have "zip (map Suc (p # qs)) (map Suc qs @ [Suc (length cs)])
        = map (\<lambda>(a, b). (Suc a, Suc b)) (zip (p # qs) (qs @ [length cs]))"
    by (simp add: zip_map_map[symmetric] del: zip_map_map)
  then show ?thesis using Cons
    by (simp add: pieces_at_def slice_Cons_0 slice_Cons_Suc comp_def case_prod_beta)
qed

lemma pieces_at_0: "pieces_at (0 # ps) s = [] # pieces_at ps s"
  by (simp add: pieces_at_def slice_def)

lemma strip_space_Cons: "isspace c \<Longrightarrow> strip (c # s) = strip s"
  by (simp add: strip_def)

lemma map_strip_prepend_space:
  "isspace c \<Longrightarrow> map strip (prepend [c] xs) = map strip xs"
  by (cases xs) (simp_all add: strip_space_Cons)

lemma pieces_skip_space:
  assumes "isspace c" "\<not> lookbehind prev"
  shows "map strip (pieces_at (sp prev (c # cs)) (c # cs))
       = map strip (pieces_at (sp (Some c) cs) cs)"
  using assms by (simp add: sp_Cons pieces_at_Suc map_strip_prepend_space)

lemma lookbehind_space: "isspace c \<Longrightarrow> \<not> lookbehind (Some c)"
  by (simp add: lookbehind_def space_not_ender)

lemma pieces_skip_run:
  "isspace c \<Longrightarrow>
   map strip (pieces_at (sp (Some c) cs) cs)
   = map strip (pieces_at (sp (Some (last (c # takeWhile isspace cs))) (dropWhile isspace cs))
        (dropWhile isspace cs))"
proof (induction cs arbitrary: c)
  case Nil
  then show ?case by (simp add: sp_Nil)
next
  case (Cons d ds)
  show ?case
  proof (cases "isspace d")
    case True
    have "map strip (pieces_at (sp (Some c) (d # ds)) (d # ds))
        = map strip (pieces_at (sp (Some d) ds) ds)"
      using True Cons.prems by (intro pieces_skip_space lookbehind_space)
    also have "\<dots> = map strip (pieces_at (sp (Some (last (d # takeWhile isspace ds)))
          (dropWhile isspace ds)) (dropWhile isspace ds))"
      using True by (rule Cons.IH)
    finally show ?thesis using True by simp
  next
    case False
    then show ?thesis by simp
  qed
qed

lemma re_split_pieces:
  "map strip (re_split prev cur rest)
   = map strip (prepend cur (pieces_at (sp prev rest) rest))"
proof (induction prev cur rest rule: re_split.induct)
  case (1 prev cur)
  then show ?case by (simp add: sp_Nil pieces_at_def slice_def)
next
  case (2 prev cur c cs)
  show ?case
  proof (cases "lookbehind prev \<and> isspace c")
    case True
    let ?w = "last (c # takeWhile isspace cs)"
    let ?r = "dropWhile isspace cs"
    have "map strip (re_split prev cur (c # cs))
        = strip cur # map strip (prepend [] (pieces_at (sp (Some ?w) ?r) ?r))"
      using True "2.IH"(1) by simp
    also have "prepend [] (pieces_at (sp (Some ?w) ?r) ?r) = pieces_at (sp (Some ?w) ?r) ?r"
      by (cases "pieces_at (sp (Some ?w) ?r) ?r") (simp_all add: pieces_at_ne)
    also have "map strip (pieces_at (sp (Some ?w) ?r) ?r)
        = map strip (pieces_at (sp (Some c) cs) cs)"
      using True by (intro pieces_skip_run[symmetric]) simp
    also have "\<dots> = map strip (prepend [c] (pieces_at (sp (Some c) cs) cs))"
      using True by (simp add: map_strip_prepend_space)
    finally show ?thesis
      using True by (simp add: sp_Cons pieces_at_0 pieces_at_Suc)
  next
    case False
    have "prepend cur (prepend [c] xs) = prepend (cur @ [c]) xs" for xs
      by (cases xs) simp_all
    then show ?thesis
      using False "2.IH"(2) by (auto simp: sp_Cons pieces_at_Suc)
  qed
qed

lemma split_text_filter:
  "split_text s = filter (\<lambda>t. t \<noteq> []) (map strip (re_split None [] s))"
proof -
  have "concat (map (\<lambda>s. if strip s \<noteq> [] then [strip s] else []) xs)
      = filter (\<lambda>t. t \<noteq> []) (map strip xs)" for xs
    by (induction xs) simp_all
  then show ?thesis by (simp add: split_text_def)
qed

lemma split_text_refines: "split_text s = spec_split s"
proof -
  have "prepend [] (pieces_at (sp None s) s) = pieces_at (sp None s) s"
    by (cases "pieces_at (sp None s) s") (simp_all add: pieces_at_ne)
  then show ?thesis
    by (simp add: split_text_filter spec_split_def re_split_pieces split_points_sp)
qed

lemma strip_decomp:
  "takeWhile isspace s @ strip s @ rev (takeWhile isspace (rev (dropWhile isspace s))) = s"
proof -
  let ?u = "dropWhile isspace s"
  have "rev (takeWhile isspace (rev ?u) @ dropWhile isspace (rev ?u)) = rev (rev ?u)"
    by (simp only: takeWhile_dropWhile_id)
  then have "strip s @ rev (takeWhile isspace (rev ?u)) = ?u"
    by (simp only: rev_rev_ident rev_append strip_def)
  then have "takeWhile isspace s @ strip s @ rev (takeWhile isspace (rev ?u))
      = takeWhile isspace s @ ?u"
    by (simp only:)
  then show ?thesis by (simp only: takeWhile_dropWhile_id)
qed

lemma strip_ends:
  assumes "strip s \<noteq> []"
  shows "\<not> isspace (hd (strip s))" and "\<not> isspace (last (strip s))"
proof -
  let ?u = "dropWhile isspace s"
  let ?v = "dropWhile isspace (rev ?u)"
  have v: "?v \<noteq> []" using assms by (simp add: strip_def)
  then have "\<not> isspace (hd ?v)" by (rule hd_dropWhile)
  then show "\<not> isspace (last (strip s))" using v by (simp add: strip_def last_rev)
  have u: "?u \<noteq> []"
  proof
    assume a: "?u = []"
    have "?v = []" unfolding a by simp
    with v show False by simp
  qed
  then have hu: "\<not> isspace (hd ?u)" by (rule hd_dropWhile)
  have "rev ?u = takeWhile isspace (rev ?u) @ ?v" by simp
  then have "last (rev ?u) = last ?v" using v by (metis last_appendR)
  then have "hd ?u = last ?v" using u by (simp add: last_rev)
  then show "\<not> isspace (hd (strip s))" using hu v by (simp add: strip_def hd_rev)
qed

lemma strip_fixed:
  assumes "t \<noteq> []" "\<not> isspace (hd t)" "\<not> isspace (last t)"
  shows "strip t = t"
proof -
  have 1: "dropWhile isspace t = t" using assms by (cases t) simp_all
  have "rev t \<noteq> []" "\<not> isspace (hd (rev t))" using assms by (simp_all add: hd_rev)
  then have "dropWhile isspace (rev t) = rev t" by (cases "rev t") simp_all
  with 1 show ?thesis by (simp add: strip_def)
qed

lemma strip_idem: "strip (strip s) = strip s"
proof (cases "strip s = []")
  case True
  have "strip [] = []" by (simp add: strip_def)
  with True show ?thesis by simp
next
  case False
  then show ?thesis by (intro strip_fixed strip_ends)
qed

lemma sp_append:
  "sp p (xs @ ys) = sp p xs @
     map (\<lambda>i. i + length xs) (sp (if xs = [] then p else Some (last xs)) ys)"
proof (induction xs arbitrary: p)
  case Nil
  then show ?case by (simp add: sp_Nil)
next
  case (Cons x xs)
  show ?case
    by (simp add: sp_Cons Cons.IH comp_def)
qed

lemma sp_None_weaker: "sp q m = [] \<Longrightarrow> sp None m = []"
  by (cases m) (auto simp: sp_Nil sp_Cons lookbehind_def split: if_splits)

lemma sp_infix:
  assumes "sp None (a @ m @ b) = []"
  shows "sp None m = []"
proof -
  from assms have "sp (if a = [] then None else Some (last a)) (m @ b) = []"
    by (simp add: sp_append)
  then have "sp (if a = [] then None else Some (last a)) m = []"
    by (simp add: sp_append)
  then show ?thesis by (rule sp_None_weaker)
qed

lemma sp_strip:
  assumes "sp None s = []"
  shows "sp None (strip s) = []"
proof -
  have "sp None (takeWhile isspace s @ strip s
     @ rev (takeWhile isspace (rev (dropWhile isspace s)))) = sp None s"
    by (simp only: strip_decomp)
  then have "sp None (takeWhile isspace s @ strip s
     @ rev (takeWhile isspace (rev (dropWhile isspace s)))) = []"
    using assms by (simp only:)
  then show ?thesis by (rule sp_infix)
qed

lemma re_split_no_points:
  "sp None cur = [] \<Longrightarrow> (cur \<noteq> [] \<longrightarrow> prev = Some (last cur)) \<Longrightarrow>
   p \<in> set (re_split prev cur rest) \<Longrightarrow> sp None p = []"
proof (induction prev cur rest rule: re_split.induct)
  case (1 prev cur)
  then show ?case by simp
next
  case (2 prev cur c cs)
  show ?case
  proof (cases "lookbehind prev \<and> isspace c")
    case True
    then show ?thesis using 2 by (auto simp: sp_Nil)
  next
    case False
    have "sp None (cur @ [c]) = []"
      using False "2.prems"(1,2) by (auto simp: sp_append sp_Cons sp_Nil lookbehind_def)
    then show ?thesis using False 2 by auto
  qed
qed

lemma split_text_elem:
  assumes "t \<in> set (split_text s)"
  shows "t \<noteq> []" and "strip t = t" and "sp None t = []"
proof -
  from assms obtain p where p: "p \<in> set (re_split None [] s)" "t = strip p" "strip p \<noteq> []"
    by (auto simp: split_text_filter)
  show "t \<noteq> []" using p by simp
  show "strip t = t" using p by (simp add: strip_idem)
  have "sp None p = []"
    using p(1) by (rule re_split_no_points[of "[]" None, rotated 2]) (simp_all add: sp_Nil)
  then show "sp None t = []" using p(2) by (simp add: sp_strip)
qed

lemma split_text_no_points:
  assumes "split_points s = []"
  shows "split_text s = (if strip s = [] then [] else [strip s])"
  using assms by (simp add: split_text_refines spec_split_def pieces_at_def slice_def)

lemma split_text_idem:
  assumes "t \<in> set (split_text x)"
  shows "split_text t = [t]"
  using split_text_elem[OF assms] split_text_no_points[of t]
  by (simp add: split_points_sp)

section \<open>Properties of the directory operations\<close>

lemma lit_iff: "lit p s = Some r \<longleftrightarrow> s = p @ r"
  by (induction p s rule: lit.induct) auto

lemma digits_iff:
  "digits k s = Some r \<longleftrightarrow> (\<exists>ds. s = ds @ r \<and> length ds = k \<and> list_all isdecimal ds)"
proof (induction k s rule: digits.induct)
  case (1 s)
  then show ?case by auto
next
  case (2 k)
  then show ?case by auto
next
  case (3 k c cs)
  show ?case
  proof (cases "isdecimal c")
    case True
    have "(\<exists>ds. c # cs = ds @ r \<and> length ds = Suc k \<and> list_all isdecimal ds)
       \<longleftrightarrow> (\<exists>ds. cs = ds @ r \<and> length ds = k \<and> list_all isdecimal ds)"
      using True by (auto simp: length_Suc_conv Cons_eq_append_conv)
    then show ?thesis using True 3 by simp
  next
    case False
    then show ?thesis by (auto simp: length_Suc_conv Cons_eq_append_conv)
  qed
qed

lemma pattern_match_iff:
  "pattern_match n \<longleftrightarrow>
    (\<exists>d t ext r. n = ''mira_'' @ d @ ''-'' @ t @ ''.'' @ ext @ r \<and>
       length d = 8 \<and> list_all isdecimal d \<and> length t = 6 \<and> list_all isdecimal t \<and>
       (ext = ''wav'' \<or> ext = ''txt'') \<and> at_end r)"
  (is "?L \<longleftrightarrow> ?R")
proof
  assume ?L
  then obtain r0 where c: "Option.bind (Option.bind (Option.bind (Option.bind (lit ''mira_'' n)
              (digits 8)) (lit ''-'')) (digits 6)) (lit ''.'') = Some r0"
    and e: "(\<exists>r. lit ''wav'' r0 = Some r \<and> at_end r) \<or> (\<exists>r. lit ''txt'' r0 = Some r \<and> at_end r)"
    by (auto simp: pattern_match_def split: option.splits)
  from c obtain r1 r2 r3 r4 where
    "lit ''mira_'' n = Some r1" "digits 8 r1 = Some r2" "lit ''-'' r2 = Some r3"
    "digits 6 r3 = Some r4" "lit ''.'' r4 = Some r0"
    by (auto simp: bind_eq_Some_conv)
  then obtain d t where "n = ''mira_'' @ d @ ''-'' @ t @ ''.'' @ r0"
      "length d = 8" "list_all isdecimal d" "length t = 6" "list_all isdecimal t"
    unfolding lit_iff digits_iff by auto
  moreover from e have "\<exists>ext r. r0 = ext @ r \<and> (ext = ''wav'' \<or> ext = ''txt'') \<and> at_end r"
    unfolding lit_iff by blast
  ultimately show ?R by blast
next
  assume ?R
  then obtain d t ext r where n: "n = ''mira_'' @ d @ ''-'' @ t @ ''.'' @ ext @ r"
     and d: "length d = 8" "list_all isdecimal d" and t: "length t = 6" "list_all isdecimal t"
     and ext: "ext = ''wav'' \<or> ext = ''txt''" and r: "at_end r"
    by blast
  have 1: "lit ''mira_'' n = Some (d @ ''-'' @ t @ ''.'' @ ext @ r)"
    unfolding lit_iff n by simp
  have 2: "digits 8 (d @ ''-'' @ t @ ''.'' @ ext @ r) = Some (''-'' @ t @ ''.'' @ ext @ r)"
    unfolding digits_iff using d by blast
  have 3: "lit ''-'' (''-'' @ t @ ''.'' @ ext @ r) = Some (t @ ''.'' @ ext @ r)"
    unfolding lit_iff by simp
  have 4: "digits 6 (t @ ''.'' @ ext @ r) = Some (''.'' @ ext @ r)"
    unfolding digits_iff using t by blast
  have 5: "lit ''.'' (''.'' @ ext @ r) = Some (ext @ r)"
    unfolding lit_iff by simp
  have c: "Option.bind (Option.bind (Option.bind (Option.bind (lit ''mira_'' n)
              (digits 8)) (lit ''-'')) (digits 6)) (lit ''.'') = Some (ext @ r)"
    by (simp only: 1 2 3 4 5 Option.bind.simps)
  from ext have "(case lit ''wav'' (ext @ r) of Some r' \<Rightarrow> at_end r' | None \<Rightarrow>
           (case lit ''txt'' (ext @ r) of Some r' \<Rightarrow> at_end r' | None \<Rightarrow> False))"
    using r by auto
  then show ?L unfolding pattern_match_def c by simp
qed

lemma correctly_named_iff:
  "correctly_named n \<longleftrightarrow>
    (\<exists>d t ext. n = ''mira_'' @ d @ ''-'' @ t @ ''.'' @ ext \<and>
       length d = 8 \<and> list_all isdecimal d \<and> length t = 6 \<and> list_all isdecimal t \<and>
       (ext = ''wav'' \<or> ext = ''txt''))"
  (is "?L \<longleftrightarrow> ?R")
proof
  assume L: ?L
  let ?s = "take 15 (drop 5 n)"
  let ?d = "take 8 ?s" and ?t = "drop 9 ?s"
  from L have ts: "is_timestamp ?s" and p: "take 5 n = ''mira_''"
    and x: "drop 20 n = ''.wav'' \<or> drop 20 n = ''.txt''"
    by (simp_all add: correctly_named_def)
  from ts have len: "length ?s = 15" and dash: "?s ! 8 = CHR ''-''"
    and dd: "list_all isdecimal ?d" and dt: "list_all isdecimal ?t"
    by (simp_all add: is_timestamp_def)
  have "?s = ?d @ drop 8 ?s" by (simp only: append_take_drop_id)
  moreover have "drop 8 ?s = ?s ! 8 # drop 9 ?s"
  proof -
    have "8 < length ?s" using len by simp
    from Cons_nth_drop_Suc[OF this] show ?thesis by simp
  qed
  ultimately have s: "?s = ?d @ ''-'' @ ?t" using dash by simp
  have "n = take 5 n @ drop 5 n" by simp
  also have "drop 5 n = ?s @ drop 15 (drop 5 n)" by (simp only: append_take_drop_id)
  finally have n: "n = ''mira_'' @ ?s @ drop 20 n" using p by simp
  from x obtain ext where ext: "drop 20 n = ''.'' @ ext" "ext = ''wav'' \<or> ext = ''txt''" by auto
  have "n = ''mira_'' @ ?d @ ''-'' @ ?t @ ''.'' @ ext"
    using n s ext(1) by (metis append.assoc)
  moreover have "length ?d = 8" "length ?t = 6" using len by simp_all
  ultimately show ?R using dd dt ext(2) by blast
next
  assume ?R
  then obtain d t ext where n: "n = ''mira_'' @ d @ ''-'' @ t @ ''.'' @ ext"
     and d: "length d = 8" "list_all isdecimal d" and t: "length t = 6" "list_all isdecimal t"
     and ext: "ext = ''wav'' \<or> ext = ''txt''"
    by blast
  have "take 15 (drop 5 n) = d @ ''-'' @ t" using d t by (simp add: n)
  moreover have "is_timestamp (d @ ''-'' @ t)"
    using d t by (simp add: is_timestamp_def nth_append)
  moreover have "drop 20 n = ''.'' @ ext" using d t by (simp add: n)
  ultimately show ?L using ext by (auto simp: correctly_named_def n)
qed

lemma pattern_match_correctly_named:
  "pattern_match n \<longleftrightarrow> correctly_named n \<or> (\<exists>m. n = m @ [CHR 0x0A] \<and> correctly_named m)"
  (is "?L \<longleftrightarrow> ?R")
proof
  assume ?L
  then obtain d t ext r where n: "n = ''mira_'' @ d @ ''-'' @ t @ ''.'' @ ext @ r"
     and c: "length d = 8 \<and> list_all isdecimal d \<and> length t = 6 \<and> list_all isdecimal t \<and>
       (ext = ''wav'' \<or> ext = ''txt'')" and r: "at_end r"
    unfolding pattern_match_iff by blast
  let ?m = "''mira_'' @ d @ ''-'' @ t @ ''.'' @ ext"
  have m: "correctly_named ?m" unfolding correctly_named_iff using c by blast
  from r have "r = [] \<or> r = [CHR 0x0A]" by (simp add: at_end_def)
  then show ?R
  proof
    assume "r = []"
    then have "n = ?m" using n by simp
    then show ?R using m by simp
  next
    assume "r = [CHR 0x0A]"
    then have "n = ?m @ [CHR 0x0A]" using n by simp
    then show ?R using m by blast
  qed
next
  assume ?R
  then obtain m r where n: "n = m @ r" and m: "correctly_named m" and r: "at_end r"
    by (auto simp: at_end_def)
  from m obtain d t ext where "m = ''mira_'' @ d @ ''-'' @ t @ ''.'' @ ext"
     and c: "length d = 8 \<and> list_all isdecimal d \<and> length t = 6 \<and> list_all isdecimal t \<and>
       (ext = ''wav'' \<or> ext = ''txt'')"
    unfolding correctly_named_iff by blast
  then have "n = ''mira_'' @ d @ ''-'' @ t @ ''.'' @ ext @ r" using n by simp
  then show ?L unfolding pattern_match_iff using c r by blast
qed

lemma lookup_unlink: "lookup (unlink n d) m = (if m = n then None else lookup d m)"
proof -
  have "map_of (filter (\<lambda>x. fst x \<noteq> n) es) m = (if m = n then None else map_of es m)" for es :: "(string \<times> entry) list"
    by (induction es) auto
  then show ?thesis by (simp add: lookup_def unlink_def)
qed

lemma wf_dir_filter:
  "wf_dir d \<Longrightarrow> wf_dir (d\<lparr>entries := filter P (entries d)\<rparr>)"
  by (simp add: wf_dir_def distinct_map_filter)

lemma wf_lookup: "wf_dir d \<Longrightarrow> lookup d n = Some e \<longleftrightarrow> (n, e) \<in> set (entries d)"
  by (simp add: wf_dir_def lookup_def)

lemma filter_name_wf:
  assumes "wf_dir d" "lookup d n = Some e"
  shows "filter (\<lambda>x. fst x \<noteq> n) (entries d) = filter (\<lambda>x. x \<noteq> (n, e)) (entries d)"
proof (rule filter_cong[OF refl])
  fix x assume "x \<in> set (entries d)"
  then have "lookup d (fst x) = Some (snd x)" using wf_lookup[OF assms(1)] by simp
  then show "(fst x \<noteq> n) = (x \<noteq> (n, e))"
    using assms(2) by (auto simp: prod_eq_iff)
qed

lemma cleanup_step_entries:
  assumes "wf_dir d"
  shows "entries (cleanup_step d n)
       = filter (\<lambda>x. \<not> (fst x = n \<and> doomed (fst x) (snd x))) (entries d)"
proof (cases "lookup d n")
  case None
  then have "\<forall>x \<in> set (entries d). fst x \<noteq> n"
    by (auto simp: lookup_def map_of_eq_None_iff)
  then have "filter (\<lambda>x. \<not> (fst x = n \<and> doomed (fst x) (snd x))) (entries d) = entries d"
    by (auto simp: filter_id_conv)
  then show ?thesis using None by (simp add: cleanup_step_def os_path_isfile_def)
next
  case (Some e)
  show ?thesis
  proof (cases "doomed n e")
    case True
    have "filter (\<lambda>x. \<not> (fst x = n \<and> doomed (fst x) (snd x))) (entries d)
        = filter (\<lambda>x. x \<noteq> (n, e)) (entries d)"
    proof (rule filter_cong[OF refl])
      fix x assume "x \<in> set (entries d)"
      then have "lookup d (fst x) = Some (snd x)" using wf_lookup[OF assms] by simp
      then show "(\<not> (fst x = n \<and> doomed (fst x) (snd x))) = (x \<noteq> (n, e))"
        using Some True by (auto simp: prod_eq_iff)
    qed
    then show ?thesis using Some True filter_name_wf[OF assms Some]
      by (auto simp: cleanup_step_def os_path_isfile_def os_remove_def doomed_def unlink_def
            is_regular_def)
  next
    case False
    have "filter (\<lambda>x. \<not> (fst x = n \<and> doomed (fst x) (snd x))) (entries d) = entries d"
      unfolding filter_id_conv
    proof
      fix x assume "x \<in> set (entries d)"
      then have "lookup d (fst x) = Some (snd x)" using wf_lookup[OF assms] by simp
      then show "\<not> (fst x = n \<and> doomed (fst x) (snd x))"
        using Some False by auto
    qed
    then show ?thesis using Some False
      by (auto simp: cleanup_step_def os_path_isfile_def os_remove_def doomed_def is_regular_def)
  qed
qed

lemma isfile_entry:
  "wf_dir d \<Longrightarrow> x \<in> set (entries d) \<Longrightarrow> os_path_isfile d (fst x) = is_regular (e_kind (snd x))"
  using wf_lookup[of d "fst x" "snd x"] by (simp add: os_path_isfile_def)

lemma cleanup_step_wf: "wf_dir d \<Longrightarrow> wf_dir (cleanup_step d n)"
  by (simp add: wf_dir_def cleanup_step_entries distinct_map_filter)

lemma cleanup_fold_entries:
  "wf_dir d \<Longrightarrow> entries (foldl cleanup_step d ns)
       = filter (\<lambda>x. \<not> (fst x \<in> set ns \<and> doomed (fst x) (snd x))) (entries d)"
proof (induction ns arbitrary: d)
  case Nil
  then show ?case by simp
next
  case (Cons n ns)
  have "entries (foldl cleanup_step (cleanup_step d n) ns)
      = filter (\<lambda>x. \<not> (fst x \<in> set ns \<and> doomed (fst x) (snd x))) (entries (cleanup_step d n))"
    using Cons.prems by (intro Cons.IH cleanup_step_wf)
  also have "\<dots> = filter (\<lambda>x. \<not> (fst x \<in> set (n # ns) \<and> doomed (fst x) (snd x))) (entries d)"
    using Cons.prems by (auto simp: cleanup_step_entries intro!: filter_cong)
  finally show ?case by simp
qed

lemma cleanup_step_frame:
  "listable (cleanup_step d n) = listable d \<and> creatable (cleanup_step d n) = creatable d"
  by (auto simp: cleanup_step_def os_remove_def unlink_def split: option.splits)

lemma cleanup_entries:
  assumes "wf_dir d"
  shows "entries (snd (cleanup_on_launch d)) =
     (if listable d then filter (\<lambda>x. \<not> doomed (fst x) (snd x)) (entries d) else entries d)"
proof (cases "listable d")
  case True
  have "entries (foldl cleanup_step d (map fst (entries d)))
     = filter (\<lambda>x. \<not> doomed (fst x) (snd x)) (entries d)"
    unfolding cleanup_fold_entries[OF assms] by (rule filter_cong) auto
  then show ?thesis using True by (simp add: cleanup_on_launch_def os_listdir_def)
next
  case False
  then show ?thesis by (simp add: cleanup_on_launch_def os_listdir_def)
qed

lemma mapM_Inr_iff: "(\<exists>ys. mapM f xs = Inr ys) \<longleftrightarrow> (\<forall>x \<in> set xs. \<exists>y. f x = Inr y)"
  by (induction xs) (auto split: sum.splits)

lemma mapM_Inr_all2: "mapM f xs = Inr ys \<Longrightarrow> list_all2 (\<lambda>x y. f x = Inr y) xs ys"
  by (induction xs arbitrary: ys) (auto split: sum.splits)

lemma mapM_total: "(\<And>x. x \<in> set xs \<Longrightarrow> f x = Inr (g x)) \<Longrightarrow> mapM f xs = Inr (map g xs)"
  by (induction xs) auto

lemma insort_key_map:
  "insort_key g (h x) (map h xs) = map h (insort_key (\<lambda>a. g (h a)) x xs)"
  by (induction xs) auto

lemma sort_key_map: "sort_key g (map h xs) = map h (sort_key (\<lambda>a. g (h a)) xs)"
  by (induction xs) (auto simp: insort_key_map)

lemma mapM_Inr_mem: "mapM f xs = Inr ys \<Longrightarrow> y \<in> set ys \<Longrightarrow> \<exists>x \<in> set xs. f x = Inr y"
  by (induction xs arbitrary: ys) (auto split: sum.splits)

lemma glob_in_dir: "n \<in> set (glob_mira_wav d) \<Longrightarrow> lookup d n \<noteq> None"
  by (auto simp: glob_mira_wav_def lookup_def map_of_eq_None_iff split: if_splits)

lemma getmtime_returns_iff:
  "getmtime_returns d n \<longleftrightarrow> (\<exists>e. lookup d n = Some e \<and> can_stat (e_kind e))"
  by (auto simp: getmtime_returns_def os_path_getmtime_def split: option.splits)

lemma getmtime_returns_mtime: "getmtime_returns d n \<Longrightarrow> os_path_getmtime d n = Inr (mtime_of d n)"
  by (auto simp: getmtime_returns_def os_path_getmtime_def mtime_of_def split: option.splits if_splits)

lemma sorted_by_mtime_desc_glob:
  assumes "audio_stat_ok d"
  shows "sorted_by_mtime_desc d (glob_mira_wav d)
     = Inr (rev (sort_key (mtime_of d) (rev (glob_mira_wav d))))"
proof -
  let ?g = "glob_mira_wav d"
  have k: "mapM (os_path_getmtime d) ?g = Inr (map (mtime_of d) ?g)"
  proof (rule mapM_total)
    fix x assume "x \<in> set ?g"
    then have "getmtime_returns d x" using assms by (simp add: audio_stat_ok_def list_all_iff)
    then show "os_path_getmtime d x = Inr (mtime_of d x)" by (rule getmtime_returns_mtime)
  qed
  have "zip (map (mtime_of d) ?g) ?g = map (\<lambda>x. (mtime_of d x, x)) ?g"
    by (simp add: zip_map1 zip_same_conv_map)
  then have "map snd (rev (sort_key fst (rev (zip (map (mtime_of d) ?g) ?g))))
      = rev (sort_key (mtime_of d) (rev ?g))"
    by (simp add: rev_map sort_key_map comp_def)
  then show ?thesis by (simp add: sorted_by_mtime_desc_def k)
qed

lemma sorted_by_mtime_desc_raises:
  assumes "\<not> audio_stat_ok d"
  shows "\<exists>e. sorted_by_mtime_desc d (glob_mira_wav d) = Inl e"
proof -
  from assms obtain n where n: "n \<in> set (glob_mira_wav d)" "\<not> getmtime_returns d n"
    by (auto simp: audio_stat_ok_def list_all_iff)
  then have "\<exists>x \<in> set (glob_mira_wav d). \<forall>y. os_path_getmtime d x \<noteq> Inr y"
    by (intro bexI[of _ n]) (auto simp: getmtime_returns_def split: sum.splits)
  then have "\<not> (\<forall>x \<in> set (glob_mira_wav d). \<exists>y. os_path_getmtime d x = Inr y)"
    by blast
  then have "\<not> (\<exists>ys. mapM (os_path_getmtime d) (glob_mira_wav d) = Inr ys)"
    by (simp add: mapM_Inr_iff)
  then obtain e where "mapM (os_path_getmtime d) (glob_mira_wav d) = Inl e"
    by (cases "mapM (os_path_getmtime d) (glob_mira_wav d)") auto
  then show ?thesis by (simp add: sorted_by_mtime_desc_def)
qed

lemma history_entry_Inr_iff:
  "(\<exists>item. history_entry d n = Inr item) \<longleftrightarrow> sidecar_readable d n"
  by (auto simp: history_entry_def sidecar_readable_def os_path_exists_def read_text_def Let_def
           split: option.splits file_data.splits)

lemma history_entry_name: "history_entry d n = Inr item \<Longrightarrow> h_name item = n \<and> h_wav item = OUTPUT_FOLDER @ n"
  by (auto simp: history_entry_def Let_def split: if_splits sum.splits)

lemma history_entry_absent:
  "lookup d (str_replace ''.wav'' ''.txt'' n) = None \<Longrightarrow>
   history_entry d n = Inr \<lparr>h_wav = OUTPUT_FOLDER @ n, h_text = ''No text found'', h_name = n\<rparr>"
  by (simp add: history_entry_def os_path_exists_def)

lemma history_entry_text:
  "read_text d (str_replace ''.wav'' ''.txt'' n) = Inr c \<Longrightarrow>
   history_entry d n = Inr \<lparr>h_wav = OUTPUT_FOLDER @ n,
      h_text = (if length (strip c) > 60 then take 60 (strip c) @ ''...'' else strip c),
      h_name = n\<rparr>"
  by (auto simp: history_entry_def os_path_exists_def read_text_def Let_def
        split: option.splits if_splits)

lemma history_entry_absent_text:
  "history_entry d n = Inr item \<Longrightarrow> \<not> os_path_exists d (str_replace ''.wav'' ''.txt'' n) \<Longrightarrow>
   h_text item = ''No text found''"
  by (auto simp: history_entry_def)

lemma history_entry_read_text:
  "history_entry d n = Inr item \<Longrightarrow> read_text d (str_replace ''.wav'' ''.txt'' n) = Inr c \<Longrightarrow>
   h_text item = (if length (strip c) > 60 then take 60 (strip c) @ ''...'' else strip c)"
  using history_entry_text[of d n c] by (auto simp del: str_replace.simps)

lemma get_history_ranked:
  "audio_stat_ok d \<Longrightarrow> get_history d = mapM (history_entry d) (take MAX_HISTORY (ranked d))"
  by (simp add: get_history_def sorted_by_mtime_desc_glob ranked_def)

lemma get_history_Inr_stat: "get_history d = Inr h \<Longrightarrow> audio_stat_ok d"
  using sorted_by_mtime_desc_raises[of d] by (cases "audio_stat_ok d") (auto simp: get_history_def)

lemma get_history_names:
  assumes "get_history d = Inr h"
  shows "map h_name h = take MAX_HISTORY (ranked d)"
proof -
  have "list_all2 (\<lambda>x y. history_entry d x = Inr y) (take MAX_HISTORY (ranked d)) h"
    using assms get_history_Inr_stat[OF assms] by (simp add: get_history_ranked mapM_Inr_all2)
  then have "list_all2 (\<lambda>x y. x = h_name y) (take MAX_HISTORY (ranked d)) h"
    by (rule list_all2_mono) (simp add: history_entry_name)
  then show ?thesis
    by (induction rule: list_all2_induct) auto
qed

lemma get_history_item:
  assumes "get_history d = Inr h" "item \<in> set h"
  shows "history_entry d (h_name item) = Inr item"
proof -
  obtain n where "history_entry d n = Inr item"
    using assms get_history_Inr_stat[OF assms(1)] mapM_Inr_mem[of "history_entry d" _ h item]
    by (auto simp: get_history_ranked)
  then show ?thesis using history_entry_name by fastforce
qed

lemma get_history_unlistable: "\<not> listable d \<Longrightarrow> get_history d = Inr []"
  by (simp add: get_history_def sorted_by_mtime_desc_def glob_mira_wav_def)

lemma get_history_returns_if:
  "audio_stat_ok d \<Longrightarrow> \<forall>n \<in> set (take MAX_HISTORY (ranked d)). sidecar_readable d n \<Longrightarrow>
   \<exists>h. get_history d = Inr h"
  by (simp add: get_history_ranked mapM_Inr_iff history_entry_Inr_iff)

section \<open>Properties of rotation and saving\<close>

lemma sidecar_Nil: "sidecar [] = []"
  by simp

lemma sidecar_Cons:
  "sidecar (c # cs) = (if take 4 (c # cs) = ''.wav'' then ''.txt'' @ sidecar (drop 4 (c # cs))
                       else c # sidecar cs)"
proof -
  have l: "length ''.wav'' = 4" by simp
  have n: "(''.wav'' = []) = False" by simp
  show ?thesis
    by (subst str_replace.simps(2)) (simp only: l n if_False)
qed

lemma sidecar_hit:
  "take 4 (c # cs) = ''.wav'' \<Longrightarrow> sidecar (c # cs) = ''.txt'' @ sidecar (drop 4 (c # cs))"
  by (simp only: sidecar_Cons if_True simp_thms)

lemma sidecar_miss:
  "take 4 (c # cs) \<noteq> ''.wav'' \<Longrightarrow> sidecar (c # cs) = c # sidecar cs"
  by (simp only: sidecar_Cons if_False simp_thms)

lemma sidecar_length: "length (sidecar s) = length s"
proof (induction s rule: length_induct)
  case (1 s)
  show ?case
  proof (cases s)
    case Nil
    then show ?thesis by simp
  next
    case (Cons c cs)
    show ?thesis
    proof (cases "take 4 (c # cs) = ''.wav''")
      case True
      then have "length (take 4 (c # cs)) = length ''.wav''" by (simp only:)
      then have l: "4 \<le> length (c # cs)" by simp
      have "length (drop 4 (c # cs)) < length s" using Cons by simp
      then have "length (sidecar (drop 4 (c # cs))) = length (drop 4 (c # cs))"
        using "1.IH" by blast
      then show ?thesis using l Cons by (simp add: sidecar_hit[OF True] del: str_replace.simps)
    next
      case False
      then show ?thesis using Cons "1.IH" by (simp add: sidecar_miss del: str_replace.simps)
    qed
  qed
qed

lemma sidecar_skip: "CHR ''.'' \<notin> set u \<Longrightarrow> sidecar (u @ v) = u @ sidecar v"
proof (induction u)
  case Nil
  then show ?case by simp
next
  case (Cons a u)
  then have "take 4 ((a # u) @ v) \<noteq> ''.wav''" by auto
  then have "sidecar (a # (u @ v)) = a # sidecar (u @ v)" by (intro sidecar_miss) simp
  then show ?case using Cons by (simp del: str_replace.simps)
qed

lemma suffix_wav_append:
  assumes "suffix ''.wav'' (''.wav'' @ r)" "r \<noteq> []"
  shows "suffix ''.wav'' r"
proof -
  from assms(1) have "suffix ''.wav'' r \<or> (\<exists>xs'. ''.wav'' = xs' @ r \<and> suffix xs' ''.wav'')"
    by (simp only: suffix_append)
  then show ?thesis
  proof
    assume "\<exists>xs'. ''.wav'' = xs' @ r \<and> suffix xs' ''.wav''"
    then obtain xs' where x: "''.wav'' = xs' @ r" "suffix xs' ''.wav''" by blast
    from x(2) have "xs' = ''.wav'' \<or> xs' = ''wav'' \<or> xs' = ''av'' \<or> xs' = ''v'' \<or> xs' = []"
      by (auto simp: suffix_Cons)
    with x(1) assms(2) have "xs' = []" by auto
    with x(1) show ?thesis by simp
  qed
qed

lemma sidecar_suffix: "suffix ''.wav'' s \<Longrightarrow> suffix ''.txt'' (sidecar s)"
proof (induction s rule: length_induct)
  case (1 s)
  show ?case
  proof (cases s)
    case Nil
    with "1.prems" show ?thesis by simp
  next
    case (Cons c cs)
    show ?thesis
    proof (cases "take 4 (c # cs) = ''.wav''")
      case True
      let ?r = "drop 4 (c # cs)"
      have s: "s = ''.wav'' @ ?r" using True Cons by (metis append_take_drop_id)
      have sc: "sidecar s = ''.txt'' @ sidecar ?r"
        using sidecar_hit[OF True] Cons by simp
      show ?thesis
      proof (cases "?r = []")
        case True
        then show ?thesis using sc by simp
      next
        case False
        have "suffix ''.wav'' ?r" using "1.prems" s False suffix_wav_append by metis
        moreover have "length ?r < length s" using Cons by simp
        ultimately have "suffix ''.txt'' (sidecar ?r)" using "1.IH" by blast
        then show ?thesis unfolding sc by (rule suffix_appendI)
      qed
    next
      case False
      have sc: "sidecar s = c # sidecar cs"
        using sidecar_miss[OF False] Cons by simp
      have "''.wav'' \<noteq> c # cs" using False by auto
      then have "suffix ''.wav'' cs" using "1.prems" Cons by (auto simp: suffix_Cons)
      then have "suffix ''.txt'' (sidecar cs)" using "1.IH" Cons by simp
      then show ?thesis unfolding sc by (simp add: suffix_Cons)
    qed
  qed
qed

lemma suffix4_drop:
  "length xs = 4 \<Longrightarrow> suffix xs ys \<longleftrightarrow> 4 \<le> length ys \<and> drop (length ys - 4) ys = xs"
  by (auto simp: suffix_def) (metis append_take_drop_id)

lemma fnmatch_suffix: "fnmatch_mira_wav n \<Longrightarrow> suffix ''.wav'' n"
  by (simp add: fnmatch_mira_wav_def suffix4_drop)

lemma sidecar_not_fnmatch: "fnmatch_mira_wav n \<Longrightarrow> \<not> fnmatch_mira_wav (sidecar n)"
proof
  assume a: "fnmatch_mira_wav n" "fnmatch_mira_wav (sidecar n)"
  from sidecar_suffix[OF fnmatch_suffix[OF a(1)]]
  have "drop (length (sidecar n) - 4) (sidecar n) = ''.txt''" by (simp add: suffix4_drop)
  moreover have "drop (length (sidecar n) - 4) (sidecar n) = ''.wav''"
    using a(2) by (simp add: fnmatch_mira_wav_def)
  ultimately show False by simp
qed

lemma sidecar_inverse:
  "suffix ''.wav'' v \<Longrightarrow> sidecar v = u @ ''.txt'' \<Longrightarrow> CHR ''.'' \<notin> set u \<Longrightarrow> v = u @ ''.wav''"
proof (induction u arbitrary: v)
  case Nil
  then have "length v = 4" using sidecar_length[of v] by simp
  then show ?case using Nil.prems(1) by (simp add: suffix4_drop)
next
  case (Cons a u)
  from Cons.prems(2) have lv: "length v = length u + 5" using sidecar_length[of v] by simp
  then obtain c cs where v: "v = c # cs" by (cases v) auto
  have nt: "take 4 (c # cs) \<noteq> ''.wav''"
  proof
    assume "take 4 (c # cs) = ''.wav''"
    then have "sidecar v = ''.txt'' @ sidecar (drop 4 (c # cs))"
      using v sidecar_hit by simp
    with Cons.prems(2,3) show False by auto
  qed
  then have sc: "sidecar v = c # sidecar cs" using v sidecar_miss by simp
  with Cons.prems(2) have ca: "c = a" and r: "sidecar cs = u @ ''.txt''" by simp_all
  have "''.wav'' \<noteq> c # cs" using nt by auto
  then have "suffix ''.wav'' cs" using Cons.prems(1) v by (auto simp: suffix_Cons)
  from Cons.IH[OF this r] Cons.prems(3) have "cs = u @ ''.wav''" by simp
  then show ?case using v ca by simp
qed

lemma timestamp_no_dot: "is_timestamp s \<Longrightarrow> CHR ''.'' \<notin> set s"
proof
  assume t: "is_timestamp s" and m: "CHR ''.'' \<in> set s"
  have nd: "\<not> isdecimal (CHR ''.'')" by (simp add: isdecimal_def)
  from t have "8 < length s" by (simp add: is_timestamp_def)
  from id_take_nth_drop[OF this] have "s = take 8 s @ s ! 8 # drop 9 s" by simp
  then have "set s = set (take 8 s) \<union> insert (s ! 8) (set (drop 9 s))"
    by (metis set_append list.simps(15))
  with m t nd show False by (auto simp: is_timestamp_def list_all_iff)
qed

lemma sidecar_of_stamp:
  "is_timestamp s \<Longrightarrow> sidecar (''mira_'' @ s @ ''.wav'') = ''mira_'' @ s @ ''.txt''"
proof -
  assume "is_timestamp s"
  then have "CHR ''.'' \<notin> set (''mira_'' @ s)" using timestamp_no_dot by auto
  from sidecar_skip[OF this, of "''.wav''"] show ?thesis by simp
qed

lemma fnmatch_stamp: "fnmatch_mira_wav (''mira_'' @ s @ ''.wav'')"
  by (simp add: fnmatch_mira_wav_def)

lemma not_fnmatch_txt: "\<not> fnmatch_mira_wav (u @ ''.txt'')"
  by (simp add: fnmatch_mira_wav_def)

lemma lookup_without: "lookup (without R d) n = (if n \<in> R then None else lookup d n)"
proof -
  have "map_of (filter (\<lambda>x. fst x \<notin> R) es) n = (if n \<in> R then None else map_of es n)"
    for es :: "(string \<times> entry) list"
    by (induction es) auto
  then show ?thesis by (simp add: lookup_def without_def)
qed

lemma without_without: "without R (without S d) = without (S \<union> R) d"
  by (auto simp: without_def intro: filter_cong)

lemma without_empty: "without {} d = d"
  by (simp add: without_def)

lemma unlink_without: "unlink n d = without {n} d"
  by (simp add: unlink_def without_def)

lemma without_flags: "listable (without R d) = listable d" "creatable (without R d) = creatable d"
  by (simp_all add: without_def)

lemma wf_without: "wf_dir d \<Longrightarrow> wf_dir (without R d)"
  by (simp add: wf_dir_def without_def distinct_map_filter)

lemma os_path_exists_cong: "lookup d' n = lookup d n \<Longrightarrow> os_path_exists d' n = os_path_exists d n"
  by (simp add: os_path_exists_def)

lemma getmtime_returns_cong:
  "lookup d' n = lookup d n \<Longrightarrow> getmtime_returns d' n = getmtime_returns d n"
  by (simp add: getmtime_returns_def os_path_getmtime_def)

lemma rotate_step_without: "rotate_step d v = without (gone d v) d"
proof (cases "deletable d v")
  case False
  then have "os_remove d v = Inl FileNotFoundError \<or> os_remove d v = Inl IsADirectoryError
       \<or> os_remove d v = Inl PermissionError"
    by (auto simp: os_remove_def deletable_def split: option.splits)
  then show ?thesis using False by (auto simp: rotate_step_def gone_def without_empty)
next
  case True
  then have r: "os_remove d v = Inr (without {v} d)"
    by (auto simp: os_remove_def deletable_def unlink_without split: option.splits)
  let ?t = "sidecar v"
  show ?thesis
  proof (cases "?t = v")
    case True
    then have "\<not> os_path_exists (without {v} d) ?t"
      by (simp add: os_path_exists_def lookup_without)
    then show ?thesis using r True \<open>deletable d v\<close>
      by (simp add: rotate_step_def gone_def)
  next
    case False
    then have l: "lookup (without {v} d) ?t = lookup d ?t" by (simp add: lookup_without)
    have x: "os_path_exists (without {v} d) ?t = os_path_exists d ?t"
      using l by (rule os_path_exists_cong)
    show ?thesis
    proof (cases "os_path_exists d ?t \<and> deletable d ?t")
      case True
      then have "os_remove (without {v} d) ?t = Inr (without {?t} (without {v} d))"
        using l by (auto simp: os_remove_def deletable_def unlink_without split: option.splits)
      then show ?thesis using r True x \<open>deletable d v\<close>
        by (simp add: rotate_step_def gone_def without_without insert_commute)
    next
      case False
      then have "\<not> os_path_exists (without {v} d) ?t
          \<or> (\<exists>e. os_remove (without {v} d) ?t = Inl e)"
        using l x by (auto simp: os_remove_def deletable_def split: option.splits)
      then show ?thesis using r False x \<open>deletable d v\<close>
        by (auto simp: rotate_step_def gone_def Let_def)
    qed
  qed
qed

lemma rotate_fold_without: "foldl rotate_step d vs = without (gone_all d vs) d"
proof (induction vs arbitrary: d)
  case Nil
  then show ?case by (simp add: without_empty)
next
  case (Cons v vs)
  have "without R (rotate_step d v) = without (gone d v \<union> R) d" for R
    by (simp only: rotate_step_without[of d v] without_without)
  moreover have "foldl rotate_step (rotate_step d v) vs
      = without (gone_all (rotate_step d v) vs) (rotate_step d v)"
    by (rule Cons.IH)
  ultimately show ?case by simp
qed

lemma gone_subset: "gone d v \<subseteq> {v, sidecar v}"
  by (auto simp: gone_def split: if_splits)

lemma gone_all_subset: "gone_all d vs \<subseteq> set vs \<union> sidecar ` set vs"
proof (induction vs arbitrary: d)
  case Nil
  then show ?case by simp
next
  case (Cons v vs)
  have "gone_all (rotate_step d v) vs \<subseteq> set vs \<union> sidecar ` set vs" by (rule Cons.IH)
  with gone_subset[of d v] show ?case by auto
qed





lemma rotate_files_without:
  assumes "audio_stat_ok d"
  shows "rotate_files d = (Inr (), without (gone_all d (drop MAX_HISTORY (ranked d))) d)"
proof (cases "length (ranked d) > MAX_HISTORY")
  case True
  then show ?thesis
    by (simp add: rotate_files_def sorted_by_mtime_desc_glob[OF assms] ranked_def
          rotate_fold_without)
next
  case False
  then have "drop MAX_HISTORY (ranked d) = []" by simp
  then show ?thesis using False
    by (simp add: rotate_files_def sorted_by_mtime_desc_glob[OF assms] ranked_def[symmetric]
          without_empty)
qed


lemma set_ranked: "set (ranked d) = set (glob_mira_wav d)"
  by (simp add: ranked_def)

lemma distinct_glob: "wf_dir d \<Longrightarrow> distinct (glob_mira_wav d)"
  by (simp add: wf_dir_def glob_mira_wav_def distinct_filter)

lemma distinct_ranked: "wf_dir d \<Longrightarrow> distinct (ranked d)"
  by (simp add: ranked_def distinct_glob)

lemma glob_fnmatch: "n \<in> set (glob_mira_wav d) \<Longrightarrow> fnmatch_mira_wav n"
  by (auto simp: glob_mira_wav_def split: if_splits)

lemma set_glob:
  "listable d \<Longrightarrow> set (glob_mira_wav d) = {n. fnmatch_mira_wav n \<and> lookup d n \<noteq> None}"
  by (auto simp: glob_mira_wav_def lookup_def map_of_eq_None_iff)

lemma sorted_last_max:
  assumes "sorted (map f ys)" "n \<in> set ys" "\<forall>m \<in> set ys. m \<noteq> n \<longrightarrow> f m < (f n :: int)"
  shows "last ys = n"
proof (rule ccontr)
  assume ne: "last ys \<noteq> n"
  have ys: "ys \<noteq> []" using assms(2) by auto
  then have "last ys \<in> set ys" by simp
  then have lt: "f (last ys) < f n" using ne assms(3) by blast
  obtain i where i: "i < length ys" "ys ! i = n" using assms(2) by (auto simp: in_set_conv_nth)
  have "map f ys ! i \<le> map f ys ! (length ys - 1)"
    using assms(1) i(1) by (intro sorted_nth_mono) auto
  then have "f n \<le> f (last ys)" using i ys by (simp add: last_conv_nth)
  with lt show False by simp
qed

lemma ranked_hd:
  assumes "n \<in> set (glob_mira_wav d)"
    and "\<forall>m \<in> set (glob_mira_wav d). m \<noteq> n \<longrightarrow> mtime_of d m < mtime_of d n"
  shows "\<exists>rest. ranked d = n # rest"
proof -
  let ?ys = "sort_key (mtime_of d) (rev (glob_mira_wav d))"
  have "last ?ys = n"
    using assms by (intro sorted_last_max[where f="mtime_of d"]) simp_all
  moreover have "n \<in> set ?ys" using assms(1) by simp
  then have "?ys \<noteq> []" by (cases ?ys) simp_all
  ultimately have "hd (rev ?ys) = n" by (simp add: hd_rev)
  moreover have "rev ?ys \<noteq> []" using \<open>?ys \<noteq> []\<close> by simp
  ultimately show ?thesis unfolding ranked_def by (cases "rev ?ys") auto
qed

lemma top_not_gone:
  assumes "wf_dir d" "n \<in> set (take MAX_HISTORY (ranked d))"
  shows "n \<notin> gone_all d (drop MAX_HISTORY (ranked d))"
proof
  assume "n \<in> gone_all d (drop MAX_HISTORY (ranked d))"
  then have "n \<in> set (drop MAX_HISTORY (ranked d)) \<or> n \<in> sidecar ` set (drop MAX_HISTORY (ranked d))"
    using gone_all_subset by blast
  then show False
  proof
    assume "n \<in> set (drop MAX_HISTORY (ranked d))"
    moreover have "distinct (take MAX_HISTORY (ranked d) @ drop MAX_HISTORY (ranked d))"
      using distinct_ranked[OF assms(1)] by simp
    ultimately show False using assms(2) by (simp only: distinct_append) blast
  next
    assume "n \<in> sidecar ` set (drop MAX_HISTORY (ranked d))"
    then obtain v where v: "v \<in> set (ranked d)" "n = sidecar v" by (auto dest: in_set_dropD)
    then have "\<not> fnmatch_mira_wav n" using glob_fnmatch sidecar_not_fnmatch set_ranked by blast
    moreover have "fnmatch_mira_wav n"
      using assms(2) glob_fnmatch set_ranked by (blast dest: in_set_takeD)
    ultimately show False by simp
  qed
qed

lemma glob_without: "glob_mira_wav (without R d) = filter (\<lambda>n. n \<notin> R) (glob_mira_wav d)"
proof -
  have "filter (\<lambda>x. fst x \<notin> R \<and> fnmatch_mira_wav (fst x)) es
      = filter (\<lambda>x. fnmatch_mira_wav (fst x) \<and> fst x \<notin> R) es" for es :: "(string \<times> entry) list"
    by (rule filter_cong) auto
  then show ?thesis by (simp add: glob_mira_wav_def without_def filter_map comp_def)
qed

lemma audio_stat_ok_without: "audio_stat_ok d \<Longrightarrow> audio_stat_ok (without R d)"
  using getmtime_returns_cong[of "without R d" _ d]
  by (auto simp: audio_stat_ok_def list_all_iff glob_without lookup_without)

lemma map_of_overwrite:
  "map_of (map (\<lambda>x. if fst x = n then (n, e') else x) es) m
     = (if m = n then map_option (\<lambda>_. e') (map_of es n) else map_of es m)"
  by (induction es) auto

lemma map_of_append_new:
  "map_of es n = None \<Longrightarrow> map_of (es @ [(n, e)]) m = (if m = n then Some e else map_of es m)"
  by (induction es) (auto split: if_splits)

lemma write_file_succeeds:
  "writable_at d n \<Longrightarrow> \<exists>d'. write_file d n dat t = Inr d'"
  by (auto simp: writable_at_def write_file_def split: option.splits)

lemma write_file_effect:
  assumes "write_file d n dat t = Inr d'"
  shows "\<exists>e. lookup d' n = Some e \<and> e_data e = dat \<and> e_mtime e = t
              \<and> can_stat (e_kind e) \<and> \<not> is_directory (e_kind e)"
    and "m \<noteq> n \<Longrightarrow> lookup d' m = lookup d m"
    and "listable d' = listable d" and "creatable d' = creatable d"
    and "wf_dir d \<Longrightarrow> wf_dir d'"
proof -
  show "\<exists>e. lookup d' n = Some e \<and> e_data e = dat \<and> e_mtime e = t
              \<and> can_stat (e_kind e) \<and> \<not> is_directory (e_kind e)"
    using assms
    by (auto simp: write_file_def lookup_def map_of_overwrite map_add_def can_stat_def
        is_directory_def split: option.splits if_splits)
  show "lookup d' m = lookup d m" if "m \<noteq> n"
    using assms that
    by (auto simp: write_file_def lookup_def map_of_overwrite map_add_def
        split: option.splits if_splits)
  show "listable d' = listable d" "creatable d' = creatable d"
    using assms by (auto simp: write_file_def split: option.splits if_splits)
  have "fst \<circ> (\<lambda>x. if fst x = n then (n, e') else x) = fst" for e' :: entry
    by (auto simp: fun_eq_iff)
  then show "wf_dir d'" if "wf_dir d"
    using assms that
    by (auto simp: write_file_def wf_dir_def lookup_def map_of_eq_None_iff
        split: option.splits if_splits)
qed

lemma writable_at_cong: "lookup d' n = lookup d n \<Longrightarrow> creatable d' = creatable d \<Longrightarrow>
   writable_at d' n = writable_at d n"
  by (auto simp: writable_at_def split: option.splits)

lemma mtime_of_cong: "lookup d' n = lookup d n \<Longrightarrow> mtime_of d' n = mtime_of d n"
  by (simp add: mtime_of_def)

lemma save_and_rotate:
  assumes wf: "wf_dir d" and ls: "listable d" and ts: "is_timestamp stamp"
    and w1: "write_file d (''mira_'' @ stamp @ ''.wav'') (Wave a) t1 = Inr d1"
    and w2: "write_file d1 (''mira_'' @ stamp @ ''.txt'') (Text text) t2 = Inr d2"
    and newest: "\<forall>m \<in> set (glob_mira_wav d). m \<noteq> ''mira_'' @ stamp @ ''.wav''
                    \<longrightarrow> mtime_of d m < t1"
    and st: "audio_stat_ok d"
  defines "d3 \<equiv> snd (rotate_files d2)"
  shows "\<exists>e. lookup d3 (''mira_'' @ stamp @ ''.wav'') = Some e \<and> e_data e = Wave a
              \<and> e_mtime e = t1 \<and> can_stat (e_kind e) \<and> \<not> is_directory (e_kind e)"
    and "\<exists>e. lookup d3 (''mira_'' @ stamp @ ''.txt'') = Some e \<and> e_data e = Text text
              \<and> can_stat (e_kind e) \<and> \<not> is_directory (e_kind e)"
    and "\<forall>n. n \<noteq> ''mira_'' @ stamp @ ''.wav'' \<and> n \<noteq> ''mira_'' @ stamp @ ''.txt''
           \<longrightarrow> lookup d3 n = lookup d n \<or> lookup d3 n = None"
    and "\<exists>rest. ranked d3 = (''mira_'' @ stamp @ ''.wav'') # rest"
    and "wf_dir d3" and "listable d3" and "audio_stat_ok d2" and "audio_stat_ok d3"
proof -
  let ?wav = "''mira_'' @ stamp @ ''.wav''" and ?txt = "''mira_'' @ stamp @ ''.txt''"
  let ?G = "gone_all d2 (drop MAX_HISTORY (ranked d2))"
  have ne: "?wav \<noteq> ?txt" by simp
  have fw: "fnmatch_mira_wav ?wav" by (rule fnmatch_stamp)
  have ft: "\<not> fnmatch_mira_wav ?txt" using not_fnmatch_txt[of "''mira_'' @ stamp"] by simp
  note e1 = write_file_effect[OF w1] and e2 = write_file_effect[OF w2]
  have wf2: "wf_dir d2" and ls2: "listable d2" using wf ls e1(3,5) e2(3,5) by simp_all
  obtain ew where ew: "lookup d1 ?wav = Some ew" "e_data ew = Wave a" "e_mtime ew = t1"
      "can_stat (e_kind ew)" "\<not> is_directory (e_kind ew)" using e1(1) by blast
  have l2w: "lookup d2 ?wav = Some ew" using e2(2)[of ?wav] ew(1) ne by simp
  obtain et where et: "lookup d2 ?txt = Some et" "e_data et = Text text"
      "can_stat (e_kind et)" "\<not> is_directory (e_kind et)"
    using e2(1) by blast
  have l2o: "lookup d2 n = lookup d n" if "n \<noteq> ?wav" "n \<noteq> ?txt" for n
    using e1(2)[of n] e2(2)[of n] that by simp
  have g2: "set (glob_mira_wav d2) = insert ?wav (set (glob_mira_wav d))"
  proof -
    have "fnmatch_mira_wav n \<and> lookup d2 n \<noteq> None
        \<longleftrightarrow> n = ?wav \<or> fnmatch_mira_wav n \<and> lookup d n \<noteq> None" for n
    proof (cases "n = ?wav")
      case True
      then show ?thesis using fw l2w by simp
    next
      case False
      show ?thesis
      proof (cases "n = ?txt")
        case True
        then show ?thesis using ft by simp
      next
        case f: False
        then show ?thesis using False l2o[of n] by simp
      qed
    qed
    then show ?thesis unfolding set_glob[OF ls] set_glob[OF ls2] by blast
  qed
  show st2: "audio_stat_ok d2"
    unfolding audio_stat_ok_def list_all_iff
  proof
    fix n assume n: "n \<in> set (glob_mira_wav d2)"
    show "getmtime_returns d2 n"
    proof (cases "n = ?wav")
      case True
      then show ?thesis using l2w ew(4) by (simp add: getmtime_returns_iff)
    next
      case False
      then have ng: "n \<in> set (glob_mira_wav d)" using n g2 by simp
      then have "n \<noteq> ?txt" using glob_fnmatch ft by blast
      then have "getmtime_returns d2 n = getmtime_returns d n"
        using False l2o by (intro getmtime_returns_cong) simp
      then show ?thesis using st ng by (simp add: audio_stat_ok_def list_all_iff)
    qed
  qed
  have d3: "d3 = without ?G d2" by (simp add: d3_def rotate_files_without[OF st2])
  have m2: "mtime_of d2 m < mtime_of d2 ?wav"
    if "m \<in> set (glob_mira_wav d2)" "m \<noteq> ?wav" for m
  proof -
    have mg: "m \<in> set (glob_mira_wav d)" using that g2 by simp
    then have "m \<noteq> ?txt" using glob_fnmatch ft by blast
    then have "mtime_of d2 m = mtime_of d m" using that(2) l2o by (intro mtime_of_cong) simp
    moreover have "mtime_of d2 ?wav = t1" using l2w ew(3) by (simp add: mtime_of_def)
    ultimately show ?thesis using newest mg that(2) by simp
  qed
  have win2: "?wav \<in> set (glob_mira_wav d2)" using g2 by simp
  obtain rest2 where r2: "ranked d2 = ?wav # rest2"
    using ranked_hd[OF win2] m2 by blast
  have top: "?wav \<in> set (take MAX_HISTORY (ranked d2))"
    by (simp add: r2 MAX_HISTORY_def)
  have wG: "?wav \<notin> ?G" by (rule top_not_gone[OF wf2 top])
  have tG: "?txt \<notin> ?G"
  proof
    assume "?txt \<in> ?G"
    then have "?txt \<in> set (drop MAX_HISTORY (ranked d2))
        \<or> ?txt \<in> sidecar ` set (drop MAX_HISTORY (ranked d2))"
      using gone_all_subset by blast
    then show False
    proof
      assume "?txt \<in> set (drop MAX_HISTORY (ranked d2))"
      then have "?txt \<in> set (glob_mira_wav d2)" using set_ranked by (blast dest: in_set_dropD)
      then show False using glob_fnmatch ft by blast
    next
      assume "?txt \<in> sidecar ` set (drop MAX_HISTORY (ranked d2))"
      then obtain v where v: "v \<in> set (drop MAX_HISTORY (ranked d2))" "sidecar v = ?txt" by auto
      then have "v \<in> set (glob_mira_wav d2)" using set_ranked by (blast dest: in_set_dropD)
      then have sv: "suffix ''.wav'' v" using glob_fnmatch fnmatch_suffix by blast
      have nd: "CHR ''.'' \<notin> set (''mira_'' @ stamp)" using timestamp_no_dot[OF ts] by auto
      have "sidecar v = (''mira_'' @ stamp) @ ''.txt''" using v(2) by simp
      from sidecar_inverse[OF sv this nd] have "v = ?wav" by simp
      moreover have "distinct (take MAX_HISTORY (ranked d2) @ drop MAX_HISTORY (ranked d2))"
        using distinct_ranked[OF wf2] by simp
      ultimately show False using v(1) top by (simp only: distinct_append) blast
    qed
  qed
  show "\<exists>e. lookup d3 ?wav = Some e \<and> e_data e = Wave a \<and> e_mtime e = t1
              \<and> can_stat (e_kind e) \<and> \<not> is_directory (e_kind e)"
    using wG l2w ew by (simp add: d3 lookup_without)
  show "\<exists>e. lookup d3 ?txt = Some e \<and> e_data e = Text text
              \<and> can_stat (e_kind e) \<and> \<not> is_directory (e_kind e)"
    using tG et by (simp add: d3 lookup_without)
  show "\<forall>n. n \<noteq> ?wav \<and> n \<noteq> ?txt \<longrightarrow> lookup d3 n = lookup d n \<or> lookup d3 n = None"
    using l2o by (simp add: d3 lookup_without)
  show wf3: "wf_dir d3" using wf2 by (simp add: d3 wf_without)
  show ls3: "listable d3" using ls2 by (simp add: d3 without_flags)
  have g3: "set (glob_mira_wav d3) \<subseteq> set (glob_mira_wav d2)"
    unfolding set_glob[OF ls3] set_glob[OF ls2] by (auto simp: d3 lookup_without split: if_splits)
  have win3: "?wav \<in> set (glob_mira_wav d3)"
    unfolding set_glob[OF ls3] using fw wG l2w by (simp add: d3 lookup_without)
  have m3: "mtime_of d3 m < mtime_of d3 ?wav" if "m \<in> set (glob_mira_wav d3)" "m \<noteq> ?wav" for m
  proof -
    have "m \<notin> ?G" using that(1) unfolding set_glob[OF ls3]
      by (auto simp: d3 lookup_without split: if_splits)
    then have "mtime_of d3 m = mtime_of d2 m" by (intro mtime_of_cong) (simp add: d3 lookup_without)
    moreover have "mtime_of d3 ?wav = mtime_of d2 ?wav"
      using wG by (intro mtime_of_cong) (simp add: d3 lookup_without)
    ultimately show ?thesis using m2[of m] g3 that by auto
  qed
  show "\<exists>rest. ranked d3 = ?wav # rest"
    using ranked_hd[OF win3] m3 by blast
  show "audio_stat_ok d3" unfolding d3 using st2 by (rule audio_stat_ok_without)
qed

lemma history_after_save:
  assumes wf: "wf_dir d" and ls: "listable d" and ts: "is_timestamp stamp"
    and w1: "write_file d (''mira_'' @ stamp @ ''.wav'') (Wave a) t1 = Inr d1"
    and w2: "write_file d1 (''mira_'' @ stamp @ ''.txt'') (Text text) t2 = Inr d2"
    and newest: "\<forall>m \<in> set (glob_mira_wav d). m \<noteq> ''mira_'' @ stamp @ ''.wav''
                    \<longrightarrow> mtime_of d m < t1"
    and rd: "\<forall>m \<in> set (glob_mira_wav d). sidecar_readable d m"
    and st: "audio_stat_ok d"
  shows "\<exists>rest. get_history (snd (rotate_files d2))
     = Inr (\<lparr>h_wav = OUTPUT_FOLDER @ ''mira_'' @ stamp @ ''.wav'',
             h_text = (if length (strip (universal_newlines text)) > 60
                       then take 60 (strip (universal_newlines text)) @ ''...''
                       else strip (universal_newlines text)),
             h_name = ''mira_'' @ stamp @ ''.wav''\<rparr> # rest)"
proof -
  let ?wav = "''mira_'' @ stamp @ ''.wav''" and ?txt = "''mira_'' @ stamp @ ''.txt''"
  let ?d3 = "snd (rotate_files d2)"
  note s = save_and_rotate[OF wf ls ts w1 w2 newest st]
  obtain et where et: "lookup ?d3 ?txt = Some et" "e_data et = Text text"
      "can_stat (e_kind et)" "\<not> is_directory (e_kind et)"
    using s(2) by blast
  obtain rest where r: "ranked ?d3 = ?wav # rest" using s(4) by blast
  have sc: "sidecar ?wav = ?txt" by (rule sidecar_of_stamp[OF ts])
  have "read_text ?d3 (sidecar ?wav) = Inr (universal_newlines text)"
    unfolding sc using et by (simp add: read_text_def)
  note h0 = history_entry_text[OF this]
  have others: "sidecar_readable ?d3 n" if n: "n \<in> set (take (MAX_HISTORY - 1) rest)" for n
  proof -
    have nr: "n \<in> set rest" using n by (rule in_set_takeD)
    have "distinct (ranked ?d3)" by (rule distinct_ranked[OF s(5)])
    then have nw: "n \<noteq> ?wav" using nr r by auto
    have "n \<in> set (glob_mira_wav ?d3)" using nr r set_ranked[of ?d3] by auto
    then have fn: "fnmatch_mira_wav n" and ex: "lookup ?d3 n \<noteq> None"
      unfolding set_glob[OF s(6)] by simp_all
    have nt: "n \<noteq> ?txt" using fn not_fnmatch_txt[of "''mira_'' @ stamp"] by auto
    have "lookup ?d3 n = lookup d n \<or> lookup ?d3 n = None"
      using s(3)[THEN spec, of n] nw nt by (simp del: str_replace.simps)
    then have "lookup ?d3 n = lookup d n" using ex by simp
    then have "n \<in> set (glob_mira_wav d)" using fn ex unfolding set_glob[OF ls] by simp
    then have rn: "sidecar_readable d n" using rd by blast
    have sw: "sidecar n \<noteq> ?wav" using sidecar_not_fnmatch[OF fn] fnmatch_stamp[of stamp] by auto
    show ?thesis
    proof (cases "sidecar n = ?txt")
      case True
      then show ?thesis using et by (simp add: sidecar_readable_def del: str_replace.simps)
    next
      case False
      then have "lookup ?d3 (sidecar n) = lookup d (sidecar n) \<or> lookup ?d3 (sidecar n) = None"
        using s(3)[THEN spec, of "sidecar n"] sw by (simp del: str_replace.simps)
      then show ?thesis using rn by (auto simp: sidecar_readable_def simp del: str_replace.simps)
    qed
  qed
  then have "\<forall>n \<in> set (take (MAX_HISTORY - 1) rest). \<exists>y. history_entry ?d3 n = Inr y"
    using history_entry_Inr_iff by blast
  then obtain ys where ys: "mapM (history_entry ?d3) (take (MAX_HISTORY - 1) rest) = Inr ys"
    using mapM_Inr_iff[of "history_entry ?d3" "take (MAX_HISTORY - 1) rest"] by blast
  have "take MAX_HISTORY (ranked ?d3) = ?wav # take (MAX_HISTORY - 1) rest"
    by (simp add: r MAX_HISTORY_def)
  then have "get_history ?d3 = mapM (history_entry ?d3) (?wav # take (MAX_HISTORY - 1) rest)"
    by (simp only: get_history_ranked[OF s(8)])
  then show ?thesis using h0 ys by (simp del: str_replace.simps)
qed

lemma rotate_files_ok: "audio_stat_ok d \<Longrightarrow> fst (rotate_files d) = Inr ()"
  by (simp add: rotate_files_without)

lemma handler_success:
  assumes "user_text \<noteq> []" "path \<noteq> []"
    and "encode_audio env path = Inr ctx"
    and "split_text user_text = ss" "ss \<noteq> []"
    and "batch_generate env ss (replicate (length ss) ctx) = Inr tensor"
    and "to_float32 env tensor = Inr audio"
    and "write_file (out w) (''mira_'' @ now_stamp env @ ''.wav'') (Wave audio) (wav_time env) = Inr d1"
    and "write_file d1 (''mira_'' @ now_stamp env @ ''.txt'') (Text user_text) (txt_time env) = Inr d2"
    and "audio_stat_ok d2"
  shows "generate_button_handler env w user_text (Some path)
    = w\<lparr>out := snd (rotate_files d2),
        trace := trace w @ [St_empty, Progress 0, Status_info_encoding, Encode_audio path,
           Status_info_synthesizing (length ss), Batch_generate ss (replicate (length ss) ctx),
           Progress 80, Sf_write (''mira_'' @ now_stamp env @ ''.wav''),
           Write_text (''mira_'' @ now_stamp env @ ''.txt''), Rotate_files,
           Progress 100, Status_success_done, Sleep, Rerun]\<rparr>"
proof -
  obtain d3 where r: "rotate_files d2 = (Inr (), d3)"
    using rotate_files_ok[OF assms(10)] by (cases "rotate_files d2") auto
  show ?thesis
    using assms r
    by (simp add: generate_button_handler_def try_block_def emit_def Let_def)
qed

section \<open>Properties of sequences of requests\<close>





























lemma strip_not_all_space:
  assumes "t \<noteq> []" "strip t = t"
  shows "\<not> list_all isspace t"
proof -
  have "\<not> isspace (hd (strip t))" using assms by (intro strip_ends) simp
  then have "\<not> isspace (hd t)" using assms by simp
  then show ?thesis using assms(1) by (cases t) simp_all
qed

text \<open>
  Claim C2. For every input, \<open>split_text\<close> returns the trimmed, non-empty pieces obtained
  by cutting the text at every position that immediately follows a \<open>.\<close>, \<open>!\<close> or \<open>?\<close>
  and is followed by whitespace, the whitespace at the cut being kept in neither piece;
  a text without such a position yields its trimmed self if that is non-empty and
  nothing otherwise; no returned element is empty or made of whitespace only; and the
  three examples of the specification evaluate as stated.
\<close>

theorem split_text_meets_spec:
  "split_text s = spec_split s
   \<and> (split_points s = [] \<longrightarrow> split_text s = (if strip s = [] then [] else [strip s]))
   \<and> (\<forall>t \<in> set (split_text s). t \<noteq> [] \<and> strip t = t \<and> \<not> list_all isspace t)
   \<and> split_text ''Hello world. How are you?'' = [''Hello world.'', ''How are you?'']
   \<and> split_text ''no punctuation here'' = [''no punctuation here'']
   \<and> split_text ''   '' = []"
proof -
  have 1: "split_text s = spec_split s" by (rule split_text_refines)
  have 2: "split_points s = [] \<longrightarrow> split_text s = (if strip s = [] then [] else [strip s])"
    by (simp add: split_text_no_points)
  have 3: "\<forall>t \<in> set (split_text s). t \<noteq> [] \<and> strip t = t \<and> \<not> list_all isspace t"
    using split_text_elem(1,2) strip_not_all_space by blast
  have 4: "split_text ''Hello world. How are you?'' = [''Hello world.'', ''How are you?'']"
    by code_simp
  have 5: "split_text ''no punctuation here'' = [''no punctuation here'']"
    by code_simp
  have 6: "split_text ''   '' = []"
    by code_simp
  from 1 2 3 4 5 6 show ?thesis by blast
qed

theorem split_text_meets_spec_witness:
  "split_points ''Wait! Go on'' = [5]
   \<and> split_text ''Wait! Go on'' = spec_split ''Wait! Go on''
   \<and> split_points ''no punctuation here'' = []
   \<and> split_text ''no punctuation here'' = [strip ''no punctuation here'']
   \<and> ''Go on'' \<in> set (split_text ''Wait! Go on'')
   \<and> strip ''Go on'' = ''Go on'' \<and> \<not> list_all isspace ''Go on''"
proof -
  have a: "split_points ''Wait! Go on'' = [5]" by code_simp
  have b: "split_points ''no punctuation here'' = []" by code_simp
  have c: "strip ''no punctuation here'' \<noteq> []" by code_simp
  have d: "''Go on'' \<in> set (split_text ''Wait! Go on'')" by code_simp
  from split_text_meets_spec[of "''no punctuation here''"] b
  have "split_text ''no punctuation here''
      = (if strip ''no punctuation here'' = [] then [] else [strip ''no punctuation here''])"
    by blast
  then have e: "split_text ''no punctuation here'' = [strip ''no punctuation here'']"
    by (simp only: c if_False)
  from split_text_meets_spec[of "''Wait! Go on''"] d
  have f: "split_text ''Wait! Go on'' = spec_split ''Wait! Go on''"
    and g: "strip ''Go on'' = ''Go on'' \<and> \<not> list_all isspace ''Go on''" by blast+
  from a b d e f g show ?thesis by blast
qed

text \<open>
  Claim C9. \<open>split_text\<close> is idempotent on its own results: every element \<open>t\<close> of
  \<open>split_text x\<close> satisfies \<open>split_text t = [t]\<close>, because \<open>t\<close> has no position that
  follows a \<open>.\<close>, \<open>!\<close> or \<open>?\<close> and holds whitespace.
\<close>

theorem split_text_idempotent:
  "\<forall>t \<in> set (split_text x). split_text t = [t] \<and> split_points t = []"
  using split_text_idem split_text_elem(3) by (simp add: split_points_sp)

theorem split_text_idempotent_witness:
  "''Bye.'' \<in> set (split_text ''Hi. Bye.'') \<and> split_text ''Bye.'' = [''Bye.'']
   \<and> split_points ''Bye.'' = []"
proof -
  have d: "''Bye.'' \<in> set (split_text ''Hi. Bye.'')" by code_simp
  with split_text_idempotent[of "''Hi. Bye.''"] show ?thesis by blast
qed

section \<open>The claims about the directory operations\<close>

lemma deletable_entry:
  "wf_dir d \<Longrightarrow> x \<in> set (entries d) \<Longrightarrow>
   deletable d (fst x)
     = (e_kind (snd x) \<noteq> Directory \<and> e_kind (snd x) \<noteq> NoAccess \<and> e_removable (snd x))"
  using wf_lookup[of d "fst x" "snd x"] by (simp add: deletable_def)

text \<open>
  Claim C3 as stated says that \<open>get_history\<close> never raises and that a sidecar whose read
  fails yields the placeholder. In the first directory below the sidecar of the only audio
  file exists and cannot be read: \<open>get_history\<close> ends with the exception of the read. In
  the second the only name that \<open>glob\<close> yields is a link whose target is missing:
  \<open>get_history\<close> ends with the exception of \<open>os.path.getmtime\<close>.
\<close>

theorem get_history_raises_counterexample:
  "os_path_exists (dir_of [(''mira_20240101-120000.wav'', plain 1 (Wave [])),
                           (''mira_20240101-120000.txt'', plain 1 Unreadable)])
      ''mira_20240101-120000.txt''
   \<and> get_history (dir_of [(''mira_20240101-120000.wav'', plain 1 (Wave [])),
                          (''mira_20240101-120000.txt'', plain 1 Unreadable)])
       = Inl PermissionError
   \<and> glob_mira_wav (dir_of [(''mira_20240101-120000.wav'', dangling_link)])
       = [''mira_20240101-120000.wav'']
   \<and> get_history (dir_of [(''mira_20240101-120000.wav'', dangling_link)])
       = Inl FileNotFoundError"
  by code_simp

text \<open>
  Claim C3, amended. A directory that cannot be read yields the empty history.
  \<open>get_history\<close> returns when \<open>os.path.getmtime\<close> returns for every audio file that
  \<open>glob\<close> yields and, for each of the (up to five) audio files it lists, the sidecar is
  absent or can be read as text. When it returns, it lists the first \<open>MAX_HISTORY\<close> audio
  files in the order of \<open>sorted\<close>, and an audio file without a sidecar has the placeholder
  preview \<^verbatim>\<open>No text found\<close>.
\<close>

theorem get_history_returns:
  "(\<not> listable d \<longrightarrow> get_history d = Inr [])
   \<and> (audio_stat_ok d \<and> (\<forall>n \<in> set (take MAX_HISTORY (ranked d)). sidecar_readable d n)
        \<longrightarrow> (\<exists>h. get_history d = Inr h))
   \<and> (\<forall>h. get_history d = Inr h \<longrightarrow>
         map h_name h = take MAX_HISTORY (ranked d)
         \<and> (\<forall>item \<in> set h. \<not> os_path_exists d (str_replace ''.wav'' ''.txt'' (h_name item))
               \<longrightarrow> h_text item = ''No text found''))"
proof -
  have 1: "\<not> listable d \<longrightarrow> get_history d = Inr []"
    by (simp add: get_history_unlistable)
  have 2: "audio_stat_ok d \<and> (\<forall>n \<in> set (take MAX_HISTORY (ranked d)). sidecar_readable d n)
        \<longrightarrow> (\<exists>h. get_history d = Inr h)"
    using get_history_returns_if[of d] by blast
  have 3: "h_text item = ''No text found''"
    if "get_history d = Inr h" "item \<in> set h"
       "\<not> os_path_exists d (str_replace ''.wav'' ''.txt'' (h_name item))" for h item
    using history_entry_absent_text[OF get_history_item[OF that(1,2)] that(3)] .
  from 1 2 3 get_history_names show ?thesis by blast
qed

theorem get_history_returns_witness:
  "\<not> listable ((dir_of [(''mira_20240101-120000.wav'', plain 1 (Wave []))])\<lparr>listable := False\<rparr>)
   \<and> get_history ((dir_of [(''mira_20240101-120000.wav'', plain 1 (Wave []))])\<lparr>listable := False\<rparr>) = Inr []
   \<and> audio_stat_ok (dir_of [(''mira_20240101-120000.wav'', plain 1 (Wave []))])
   \<and> take MAX_HISTORY (ranked (dir_of [(''mira_20240101-120000.wav'', plain 1 (Wave []))]))
       = [''mira_20240101-120000.wav'']
   \<and> sidecar_readable (dir_of [(''mira_20240101-120000.wav'', plain 1 (Wave []))])
         ''mira_20240101-120000.wav''
   \<and> get_history (dir_of [(''mira_20240101-120000.wav'', plain 1 (Wave []))])
       = Inr [\<lparr>h_wav = ''./static/output/mira_20240101-120000.wav'', h_text = ''No text found'',
               h_name = ''mira_20240101-120000.wav''\<rparr>]
   \<and> \<not> os_path_exists (dir_of [(''mira_20240101-120000.wav'', plain 1 (Wave []))])
         (str_replace ''.wav'' ''.txt'' ''mira_20240101-120000.wav'')"
proof -
  let ?d = "dir_of [(''mira_20240101-120000.wav'', plain 1 (Wave []))]"
  let ?u = "?d\<lparr>listable := False\<rparr>"
  have u: "\<not> listable ?u" by simp
  from get_history_returns[of ?u] u have 1: "get_history ?u = Inr []" by blast
  have o: "audio_stat_ok ?d" by code_simp
  have r: "ranked ?d = [''mira_20240101-120000.wav'']" by code_simp
  have s: "sidecar_readable ?d ''mira_20240101-120000.wav''" by code_simp
  have a: "\<forall>n \<in> set (take MAX_HISTORY (ranked ?d)). sidecar_readable ?d n"
    using r s by (simp add: MAX_HISTORY_def)
  with o get_history_returns[of ?d] obtain h where h: "get_history ?d = Inr h" by blast
  with get_history_returns[of ?d] have n: "map h_name h = take MAX_HISTORY (ranked ?d)"
    and t: "\<forall>item \<in> set h. \<not> os_path_exists ?d (str_replace ''.wav'' ''.txt'' (h_name item))
               \<longrightarrow> h_text item = ''No text found''"
    by blast+
  have x: "\<not> os_path_exists ?d (str_replace ''.wav'' ''.txt'' ''mira_20240101-120000.wav'')"
    by code_simp
  have g: "get_history ?d = Inr [\<lparr>h_wav = ''./static/output/mira_20240101-120000.wav'',
       h_text = ''No text found'', h_name = ''mira_20240101-120000.wav''\<rparr>]"
    by code_simp
  have r': "take MAX_HISTORY (ranked ?d) = [''mira_20240101-120000.wav'']"
    using r by (simp add: MAX_HISTORY_def)
  from h n t x r' have "\<exists>item. h = [item] \<and> h_text item = ''No text found''"
    by (cases h) auto
  with h u 1 o r' s g x show ?thesis by blast
qed

text \<open>
  Claim C4 as stated says that a transcript of exactly 61 characters yields its first 60
  characters and an ellipsis. The transcript below has 61 characters, the last one a space:
  the preview is the 60 characters left after trimming, with no ellipsis.
\<close>

theorem preview_trimmed_counterexample:
  "length (replicate 60 (CHR ''a'') @ '' '') = 61
   \<and> get_history (dir_of [(''mira_20240101-120000.wav'', plain 1 (Wave [])),
        (''mira_20240101-120000.txt'', plain 1 (Text (replicate 60 (CHR ''a'') @ '' '')))])
     = Inr [\<lparr>h_wav = ''./static/output/mira_20240101-120000.wav'',
             h_text = replicate 60 (CHR ''a''),
             h_name = ''mira_20240101-120000.wav''\<rparr>]
   \<and> replicate 60 (CHR ''a'') \<noteq> take 60 (replicate 60 (CHR ''a'') @ '' '') @ ''...''"
  by code_simp

text \<open>
  Claim C4, amended. The preview of a listed item is computed from the sidecar text as
  read and then trimmed of leading and trailing whitespace: its first 60 characters and
  \<^verbatim>\<open>...\<close> when the trimmed text is longer than 60 characters, the trimmed text
  otherwise. For a text that trimming leaves unchanged, that is the first 60 characters
  and \<^verbatim>\<open>...\<close> when it is longer than 60, and the text itself otherwise.
\<close>

theorem history_preview:
  assumes "get_history d = Inr h" and "item \<in> set h"
    and "read_text d (str_replace ''.wav'' ''.txt'' (h_name item)) = Inr c"
  shows "h_text item = (if length (strip c) > 60 then take 60 (strip c) @ ''...'' else strip c)
    \<and> (strip c = c \<longrightarrow> h_text item = (if length c > 60 then take 60 c @ ''...'' else c))"
proof -
  from history_entry_read_text[OF get_history_item[OF assms(1,2)] assms(3)]
  have "h_text item = (if length (strip c) > 60 then take 60 (strip c) @ ''...'' else strip c)"
    by simp
  then show ?thesis by simp
qed

theorem history_preview_witness:
  "get_history (dir_of [(''mira_20240101-120000.wav'', plain 1 (Wave [])),
        (''mira_20240101-120000.txt'', plain 1 (Text (replicate 61 (CHR ''a''))))])
     = Inr [\<lparr>h_wav = ''./static/output/mira_20240101-120000.wav'',
             h_text = replicate 60 (CHR ''a'') @ ''...'',
             h_name = ''mira_20240101-120000.wav''\<rparr>]
   \<and> read_text (dir_of [(''mira_20240101-120000.wav'', plain 1 (Wave [])),
        (''mira_20240101-120000.txt'', plain 1 (Text (replicate 61 (CHR ''a''))))])
        (str_replace ''.wav'' ''.txt'' ''mira_20240101-120000.wav'')
     = Inr (replicate 61 (CHR ''a''))
   \<and> strip (replicate 61 (CHR ''a'')) = replicate 61 (CHR ''a'')
   \<and> h_text \<lparr>h_wav = ''./static/output/mira_20240101-120000.wav'',
             h_text = replicate 60 (CHR ''a'') @ ''...'',
             h_name = ''mira_20240101-120000.wav''\<rparr>
     = take 60 (replicate 61 (CHR ''a'')) @ ''...''"
proof -
  let ?d = "dir_of [(''mira_20240101-120000.wav'', plain 1 (Wave [])),
        (''mira_20240101-120000.txt'', plain 1 (Text (replicate 61 (CHR ''a''))))]"
  let ?item = "\<lparr>h_wav = ''./static/output/mira_20240101-120000.wav'',
             h_text = replicate 60 (CHR ''a'') @ ''...'',
             h_name = ''mira_20240101-120000.wav''\<rparr>"
  have g: "get_history ?d = Inr [?item]" by code_simp
  have r: "read_text ?d (str_replace ''.wav'' ''.txt'' (h_name ?item))
      = Inr (replicate 61 (CHR ''a''))" by code_simp
  have s: "strip (replicate 61 (CHR ''a'')) = replicate 61 (CHR ''a'')" by code_simp
  have l: "length (replicate 61 (CHR ''a'')) > 60" by simp
  from history_preview[OF g _ r] s l
  have "h_text ?item = take 60 (replicate 61 (CHR ''a'')) @ ''...''" by simp
  with g r s show ?thesis by simp
qed

text \<open>
  Claim C5 as stated says that, in a directory that holds correctly named files and others,
  the cleanup removes exactly the others. The directory \<open>mixed_dir\<close> holds a correctly
  named pair and four entries that are not correctly named. The cleanup removes one of
  them; it leaves the file that cannot be unlinked (the exception of \<open>os.remove\<close> is
  swallowed), the file whose name is a correct name followed by a line feed (the pattern
  accepts it) and the link without target (\<open>os.path.isfile\<close> rejects it). When the same
  directory cannot be listed, \<open>os.listdir\<close> raises and nothing is removed.
\<close>

theorem cleanup_keeps_strays_counterexample:
  "correctly_named ''mira_20240101-120000.wav'' \<and> correctly_named ''mira_20240101-120000.txt''
   \<and> \<not> correctly_named ''junk.tmp'' \<and> \<not> correctly_named ''notes.md''
   \<and> \<not> correctly_named (''mira_20240101-120001.wav'' @ [CHR 0x0A])
   \<and> \<not> correctly_named ''broken''
   \<and> cleanup_on_launch mixed_dir
       = (Inr (), dir_of
            [(''mira_20240101-120000.wav'', plain 1 (Wave [])),
             (''mira_20240101-120000.txt'', plain 1 (Text ''One.'')),
             (''notes.md'', (plain 4 (Text ''x''))\<lparr>e_removable := False\<rparr>),
             (''mira_20240101-120001.wav'' @ [CHR 0x0A], plain 3 (Wave [])),
             (''broken'', dangling_link)])
   \<and> cleanup_on_launch (mixed_dir\<lparr>listable := False\<rparr>)
       = (Inl PermissionError, mixed_dir\<lparr>listable := False\<rparr>)"
  by code_simp

text \<open>
  Claim C5, amended. \<open>cleanup_on_launch\<close> creates and changes nothing, and removes nothing
  when the directory cannot be listed. It leaves in place every correctly named entry,
  every entry that \<open>os.path.isfile\<close> rejects (anything but a regular file or a link to
  one) and every entry that \<open>os.remove\<close> fails to remove. When the directory can be
  listed it removes every entry that \<open>os.path.isfile\<close> accepts, that \<open>os.remove\<close>
  removes and whose name is neither correctly named nor a correct name followed by a line
  feed.
\<close>

theorem cleanup_on_launch_effect:
  assumes "wf_dir d"
  shows "set (entries (snd (cleanup_on_launch d))) \<subseteq> set (entries d)
    \<and> (\<not> listable d \<longrightarrow> snd (cleanup_on_launch d) = d)
    \<and> (\<forall>x \<in> set (entries d).
          correctly_named (fst x) \<or> \<not> os_path_isfile d (fst x) \<or> \<not> deletable d (fst x)
          \<longrightarrow> x \<in> set (entries (snd (cleanup_on_launch d))))
    \<and> (listable d \<longrightarrow> (\<forall>x \<in> set (entries d).
          os_path_isfile d (fst x) \<and> deletable d (fst x) \<and> \<not> correctly_named (fst x)
          \<and> \<not> (fst x \<noteq> [] \<and> last (fst x) = CHR 0x0A \<and> correctly_named (butlast (fst x)))
          \<longrightarrow> lookup (snd (cleanup_on_launch d)) (fst x) = None))"
proof -
  let ?d' = "snd (cleanup_on_launch d)"
  have 1: "set (entries ?d') \<subseteq> set (entries d)"
    by (auto simp: cleanup_entries[OF assms])
  have 0: "\<not> listable d \<longrightarrow> ?d' = d"
    by (simp add: cleanup_on_launch_def os_listdir_def)
  have dm: "doomed (fst x) (snd x)
      \<longleftrightarrow> os_path_isfile d (fst x) \<and> deletable d (fst x) \<and> \<not> pattern_match (fst x)"
    if "x \<in> set (entries d)" for x
    using isfile_entry[OF assms that] deletable_entry[OF assms that]
    by (auto simp: doomed_def is_regular_def)
  have 2: "x \<in> set (entries ?d')"
    if "x \<in> set (entries d)"
       "correctly_named (fst x) \<or> \<not> os_path_isfile d (fst x) \<or> \<not> deletable d (fst x)" for x
  proof -
    have "\<not> doomed (fst x) (snd x)"
      using that(2) dm[OF that(1)] by (auto simp: pattern_match_correctly_named)
    then show ?thesis using that(1) by (simp add: cleanup_entries[OF assms])
  qed
  have 3: "lookup ?d' (fst x) = None"
    if l: "listable d" and x: "x \<in> set (entries d)"
      and r: "os_path_isfile d (fst x)" "deletable d (fst x)" "\<not> correctly_named (fst x)"
       "\<not> (fst x \<noteq> [] \<and> last (fst x) = CHR 0x0A \<and> correctly_named (butlast (fst x)))" for x
  proof -
    have "\<not> pattern_match (fst x)"
      using r(3,4) by (auto simp: pattern_match_correctly_named)
    then have d: "doomed (fst x) (snd x)" using r(1,2) dm[OF x] by simp
    have "fst x \<notin> fst ` set (entries ?d')"
    proof
      assume "fst x \<in> fst ` set (entries ?d')"
      then obtain y where y: "y \<in> set (entries d)" "\<not> doomed (fst y) (snd y)" "fst y = fst x"
        using l by (auto simp: cleanup_entries[OF assms])
      then have "y = x" using x assms by (auto simp: wf_dir_def distinct_map inj_on_def)
      with y d show False by simp
    qed
    then show ?thesis by (simp add: lookup_def map_of_eq_None_iff)
  qed
  from 1 0 2 3 show ?thesis by blast
qed

theorem cleanup_on_launch_effect_witness:
  "wf_dir mixed_dir \<and> listable mixed_dir
   \<and> correctly_named ''mira_20240101-120000.wav''
   \<and> (''mira_20240101-120000.wav'', plain 1 (Wave []))
        \<in> set (entries (snd (cleanup_on_launch mixed_dir)))
   \<and> os_path_isfile mixed_dir ''junk.tmp'' \<and> deletable mixed_dir ''junk.tmp''
   \<and> \<not> correctly_named ''junk.tmp''
   \<and> lookup (snd (cleanup_on_launch mixed_dir)) ''junk.tmp'' = None
   \<and> \<not> listable (mixed_dir\<lparr>listable := False\<rparr>)
   \<and> snd (cleanup_on_launch (mixed_dir\<lparr>listable := False\<rparr>)) = mixed_dir\<lparr>listable := False\<rparr>"
proof -
  let ?u = "mixed_dir\<lparr>listable := False\<rparr>"
  have w: "wf_dir mixed_dir" by code_simp
  have wu: "wf_dir ?u" using w by (simp add: wf_dir_def)
  have l: "listable mixed_dir" by code_simp
  have c: "correctly_named ''mira_20240101-120000.wav''" by code_simp
  have n: "\<not> correctly_named ''junk.tmp''" by code_simp
  have n': "\<not> correctly_named (butlast ''junk.tmp'')" by code_simp
  have f: "os_path_isfile mixed_dir ''junk.tmp''" by code_simp
  have r: "deletable mixed_dir ''junk.tmp''" by code_simp
  have m: "(''mira_20240101-120000.wav'', plain 1 (Wave [])) \<in> set (entries mixed_dir)"
    "(''junk.tmp'', plain 2 (Text ''x'')) \<in> set (entries mixed_dir)"
    by (simp_all add: mixed_dir_def dir_of_def)
  from cleanup_on_launch_effect[OF w] have
    a: "\<forall>x \<in> set (entries mixed_dir).
          correctly_named (fst x) \<or> \<not> os_path_isfile mixed_dir (fst x)
            \<or> \<not> deletable mixed_dir (fst x)
          \<longrightarrow> x \<in> set (entries (snd (cleanup_on_launch mixed_dir)))"
    and b: "listable mixed_dir \<longrightarrow> (\<forall>x \<in> set (entries mixed_dir).
          os_path_isfile mixed_dir (fst x) \<and> deletable mixed_dir (fst x)
          \<and> \<not> correctly_named (fst x)
          \<and> \<not> (fst x \<noteq> [] \<and> last (fst x) = CHR 0x0A \<and> correctly_named (butlast (fst x)))
          \<longrightarrow> lookup (snd (cleanup_on_launch mixed_dir)) (fst x) = None)"
    by blast+
  from a m(1) c have 1: "(''mira_20240101-120000.wav'', plain 1 (Wave []))
      \<in> set (entries (snd (cleanup_on_launch mixed_dir)))"
    by fastforce
  from b l m(2) n n' f r have 2: "lookup (snd (cleanup_on_launch mixed_dir)) ''junk.tmp'' = None"
    by fastforce
  from cleanup_on_launch_effect[OF wu] have 3: "snd (cleanup_on_launch ?u) = ?u" by simp
  from w l c 1 f r n 2 3 show ?thesis by simp
qed

text \<open>
  Claim C10 as stated says that an entry that is not a regular file is left untouched. In
  the directory below the stray entry is a symbolic link to a regular file:
  \<open>os.path.isfile\<close> follows the link and accepts it, and \<open>os.remove\<close> unlinks it.
\<close>

theorem cleanup_removes_link_counterexample:
  "e_kind (link_to_file 4 (Text ''x'')) = LinkToFile
   \<and> \<not> pattern_match ''shortcut''
   \<and> cleanup_on_launch (dir_of [(''mira_20240101-120000.wav'', plain 1 (Wave [])),
                                (''shortcut'', link_to_file 4 (Text ''x''))])
       = (Inr (), dir_of [(''mira_20240101-120000.wav'', plain 1 (Wave []))])"
  by code_simp

text \<open>
  Claim C10, amended. \<open>cleanup_on_launch\<close> only ever removes entries that
  \<open>os.path.isfile\<close> accepts, which are the regular files and the links to regular files:
  the entries that \<open>os.path.isfile\<close> rejects (subdirectories, special files, links to
  them, links without target, entries that cannot be examined) are the same after the
  cleanup as before, whatever their names.
\<close>

theorem cleanup_spares_non_regular:
  assumes "wf_dir d"
  shows "filter (\<lambda>x. \<not> os_path_isfile d (fst x)) (entries (snd (cleanup_on_launch d)))
           = filter (\<lambda>x. \<not> os_path_isfile d (fst x)) (entries d)
       \<and> (\<forall>x \<in> set (entries d). x \<notin> set (entries (snd (cleanup_on_launch d)))
             \<longrightarrow> os_path_isfile d (fst x))
       \<and> (\<forall>x \<in> set (entries d). os_path_isfile d (fst x)
             \<longleftrightarrow> e_kind (snd x) = RegularFile \<or> e_kind (snd x) = LinkToFile)"
proof -
  have i: "os_path_isfile d (fst x) = is_regular (e_kind (snd x))" if "x \<in> set (entries d)" for x
    using that by (rule isfile_entry[OF assms])
  have "filter (\<lambda>x. \<not> os_path_isfile d (fst x)) (filter (\<lambda>x. \<not> doomed (fst x) (snd x)) (entries d))
      = filter (\<lambda>x. \<not> os_path_isfile d (fst x)) (entries d)"
    unfolding filter_filter by (rule filter_cong) (auto simp: doomed_def i)
  then have 1: "filter (\<lambda>x. \<not> os_path_isfile d (fst x)) (entries (snd (cleanup_on_launch d)))
           = filter (\<lambda>x. \<not> os_path_isfile d (fst x)) (entries d)"
    by (simp add: cleanup_entries[OF assms])
  have 2: "\<forall>x \<in> set (entries d). x \<notin> set (entries (snd (cleanup_on_launch d)))
             \<longrightarrow> os_path_isfile d (fst x)"
    using i by (auto simp: cleanup_entries[OF assms] doomed_def split: if_splits)
  have 3: "\<forall>x \<in> set (entries d). os_path_isfile d (fst x)
             \<longleftrightarrow> e_kind (snd x) = RegularFile \<or> e_kind (snd x) = LinkToFile"
    using i by (simp add: is_regular_def)
  from 1 2 3 show ?thesis by (intro conjI)
qed

theorem cleanup_spares_non_regular_witness:
  "wf_dir (dir_of [(''old'', subdir 3), (''notes.md'', plain 4 (Text ''x'')),
                   (''broken'', dangling_link)])
   \<and> entries (snd (cleanup_on_launch (dir_of [(''old'', subdir 3),
         (''notes.md'', plain 4 (Text ''x'')), (''broken'', dangling_link)])))
       = [(''old'', subdir 3), (''broken'', dangling_link)]
   \<and> (''notes.md'', plain 4 (Text ''x''))
        \<in> set (entries (dir_of [(''old'', subdir 3), (''notes.md'', plain 4 (Text ''x'')),
                                 (''broken'', dangling_link)]))
   \<and> (''notes.md'', plain 4 (Text ''x''))
        \<notin> set (entries (snd (cleanup_on_launch (dir_of [(''old'', subdir 3),
                  (''notes.md'', plain 4 (Text ''x'')), (''broken'', dangling_link)]))))
   \<and> os_path_isfile (dir_of [(''old'', subdir 3), (''notes.md'', plain 4 (Text ''x'')),
                              (''broken'', dangling_link)]) ''notes.md''
   \<and> e_kind (plain 4 (Text ''x'')) = RegularFile"
proof -
  let ?d = "dir_of [(''old'', subdir 3), (''notes.md'', plain 4 (Text ''x'')),
                    (''broken'', dangling_link)]"
  have w: "wf_dir ?d" by (simp add: wf_dir_def dir_of_def)
  have e: "entries (snd (cleanup_on_launch ?d)) = [(''old'', subdir 3), (''broken'', dangling_link)]"
    by code_simp
  have m: "(''notes.md'', plain 4 (Text ''x'')) \<in> set (entries ?d)" by (simp add: dir_of_def)
  have n: "(''notes.md'', plain 4 (Text ''x'')) \<notin> set (entries (snd (cleanup_on_launch ?d)))"
    unfolding e by simp
  from cleanup_spares_non_regular[OF w] m n
  have f: "os_path_isfile ?d ''notes.md''" by fastforce
  from cleanup_spares_non_regular[OF w] m f
  have k: "e_kind (plain 4 (Text ''x'')) = RegularFile \<or> e_kind (plain 4 (Text ''x'')) = LinkToFile"
    by fastforce
  then have k': "e_kind (plain 4 (Text ''x'')) = RegularFile" by (simp add: plain_def)
  from w e m n f k' show ?thesis by (intro conjI)
qed

section \<open>The claims about the generation request\<close>

text \<open>
  Claim C6. A request whose input text is empty or for which no reference clip is
  selected reports the validation error and does nothing else: the speech model is not
  called (no event is recorded but the error message) and both directories are as before.
\<close>

theorem validation_error_only:
  assumes "user_text = [] \<or> selected_ref_path = None"
  shows "generate_button_handler env w user_text selected_ref_path
       = w\<lparr>trace := trace w @ [St_error ''Please provide both text and a reference voice.'']\<rparr>
     \<and> out (generate_button_handler env w user_text selected_ref_path) = out w
     \<and> refs (generate_button_handler env w user_text selected_ref_path) = refs w"
  using assms by (auto simp: generate_button_handler_def emit_def split: option.splits)

theorem validation_error_only_witness:
  "generate_button_handler env0 world_empty ''Hi. Bye.'' None
    = \<lparr>out = dir_of [], refs = [],
        trace = [St_error ''Please provide both text and a reference voice.'']\<rparr>"
  using validation_error_only[of "''Hi. Bye.''" None env0 world_empty]
  by (simp add: world_empty_def)

text \<open>
  Claim C7. A request with a selected reference clip whose input text is not empty but
  splits into no sentence stops after the encoding step: when \<open>encode_audio\<close> returns,
  the only events are the two widgets, the status message and the call of
  \<open>encode_audio\<close>, so no generation call is made, nothing is written, \<open>rotate_files\<close> is
  not called and no error is reported. The output directory is as before in any case.
\<close>

theorem empty_split_is_silent:
  assumes "user_text \<noteq> []" and "split_text user_text = []" and "path \<noteq> []"
  shows "(\<forall>ctx. encode_audio env path = Inr ctx \<longrightarrow>
            generate_button_handler env w user_text (Some path)
              = w\<lparr>trace := trace w @ [St_empty, Progress 0, Status_info_encoding,
                                        Encode_audio path]\<rparr>)
     \<and> out (generate_button_handler env w user_text (Some path)) = out w
     \<and> refs (generate_button_handler env w user_text (Some path)) = refs w"
  using assms
  by (auto simp: generate_button_handler_def try_block_def emit_def Let_def split: sum.splits)

theorem empty_split_is_silent_witness:
  "split_text ''   '' = [] \<and> encode_audio env0 ''voice.wav'' = Inr [7]
   \<and> generate_button_handler env0 world_empty ''   '' (Some ''voice.wav'')
    = \<lparr>out = dir_of [], refs = [],
        trace = [St_empty, Progress 0, Status_info_encoding, Encode_audio ''voice.wav'']\<rparr>"
proof -
  have s: "split_text ''   '' = []" by code_simp
  have e: "encode_audio env0 ''voice.wav'' = Inr [7]" by (simp add: env0_def)
  from empty_split_is_silent[of "''   ''" "''voice.wav''" env0 world_empty] s e
  show ?thesis by (simp add: world_empty_def)
qed

text \<open>
  Claim C8 as stated says that after a request with a valid reference path and the text
  \<^verbatim>\<open>Hi. Bye.\<close> the pair of the request is written and the history lists it first. In
  \<open>world_newer\<close> the five audio files in the directory carry a later modification time
  than the new one: the request succeeds, \<open>rotate_files\<close> ranks the new audio file sixth
  and removes it with its sidecar. In \<open>world_unreadable\<close> the sidecar of an older audio
  file cannot be read: the request succeeds and \<open>get_history\<close> raises afterwards. In
  \<open>world_dangling\<close> an audio file name is a link without target: \<open>rotate_files\<close> raises
  inside the request, which ends with the error message, and \<open>get_history\<close> raises
  afterwards.
\<close>

theorem hi_bye_not_listed_counterexample:
  "succeeded (generate_button_handler env0 world_newer ''Hi. Bye.'' (Some ''voice.wav''))
   \<and> lookup (out (generate_button_handler env0 world_newer ''Hi. Bye.'' (Some ''voice.wav'')))
        ''mira_20240101-120000.wav'' = None
   \<and> lookup (out (generate_button_handler env0 world_newer ''Hi. Bye.'' (Some ''voice.wav'')))
        ''mira_20240101-120000.txt'' = None
   \<and> succeeded (generate_button_handler env0 world_unreadable ''Hi. Bye.'' (Some ''voice.wav''))
   \<and> get_history (out (generate_button_handler env0 world_unreadable ''Hi. Bye.''
        (Some ''voice.wav''))) = Inl PermissionError
   \<and> last (trace (generate_button_handler env0 world_dangling ''Hi. Bye.'' (Some ''voice.wav'')))
       = St_error_exception FileNotFoundError
   \<and> get_history (out (generate_button_handler env0 world_dangling ''Hi. Bye.''
        (Some ''voice.wav''))) = Inl FileNotFoundError"
  by code_simp

text \<open>
  Claim C8, amended. A request with the text \<^verbatim>\<open>Hi. Bye.\<close> and a reference path that the
  model encodes, when generation, conversion and both file writes succeed, in a listable
  output directory in which \<open>os.path.getmtime\<close> returns for every audio file and whose
  audio files are all older than the new one and have sidecars that are absent or can be
  read: the handler calls \<open>encode_audio\<close> once and \<open>batch_generate\<close> once, with the two
  sentences and the same style twice; it writes the audio file and the sidecar of the
  current timestamp, the sidecar holding the input text; no other entry is created or
  changed (older ones may be rotated out); and \<open>get_history\<close> then lists the new pair
  first, with the input text as preview.
\<close>

theorem hi_bye_end_to_end:
  assumes "wf_dir (out w)" and "listable (out w)" and "is_timestamp (now_stamp env)"
    and "path \<noteq> []"
    and "encode_audio env path = Inr ctx"
    and "batch_generate env [''Hi.'', ''Bye.''] [ctx, ctx] = Inr tensor"
    and "to_float32 env tensor = Inr audio"
    and "writable_at (out w) (''mira_'' @ now_stamp env @ ''.wav'')"
    and "writable_at (out w) (''mira_'' @ now_stamp env @ ''.txt'')"
    and "\<forall>m \<in> set (glob_mira_wav (out w)). m \<noteq> ''mira_'' @ now_stamp env @ ''.wav''
            \<longrightarrow> mtime_of (out w) m < wav_time env"
    and "\<forall>m \<in> set (glob_mira_wav (out w)). sidecar_readable (out w) m"
    and "audio_stat_ok (out w)"
  shows "trace (generate_button_handler env w ''Hi. Bye.'' (Some path))
       = trace w @ [St_empty, Progress 0, Status_info_encoding, Encode_audio path,
           Status_info_synthesizing 2, Batch_generate [''Hi.'', ''Bye.''] [ctx, ctx],
           Progress 80, Sf_write (''mira_'' @ now_stamp env @ ''.wav''),
           Write_text (''mira_'' @ now_stamp env @ ''.txt''), Rotate_files,
           Progress 100, Status_success_done, Sleep, Rerun]
    \<and> (\<exists>e. lookup (out (generate_button_handler env w ''Hi. Bye.'' (Some path)))
              (''mira_'' @ now_stamp env @ ''.wav'') = Some e \<and> e_data e = Wave audio)
    \<and> (\<exists>e. lookup (out (generate_button_handler env w ''Hi. Bye.'' (Some path)))
              (''mira_'' @ now_stamp env @ ''.txt'') = Some e \<and> e_data e = Text ''Hi. Bye.'')
    \<and> (\<forall>n. n \<noteq> ''mira_'' @ now_stamp env @ ''.wav'' \<and> n \<noteq> ''mira_'' @ now_stamp env @ ''.txt''
           \<longrightarrow> lookup (out (generate_button_handler env w ''Hi. Bye.'' (Some path))) n
                 = lookup (out w) n
             \<or> lookup (out (generate_button_handler env w ''Hi. Bye.'' (Some path))) n = None)
    \<and> (\<exists>rest. get_history (out (generate_button_handler env w ''Hi. Bye.'' (Some path)))
          = Inr (\<lparr>h_wav = OUTPUT_FOLDER @ ''mira_'' @ now_stamp env @ ''.wav'',
                  h_text = ''Hi. Bye.'',
                  h_name = ''mira_'' @ now_stamp env @ ''.wav''\<rparr> # rest))
    \<and> refs (generate_button_handler env w ''Hi. Bye.'' (Some path)) = refs w"
proof -
  let ?wav = "''mira_'' @ now_stamp env @ ''.wav''" and ?txt = "''mira_'' @ now_stamp env @ ''.txt''"
  let ?w' = "generate_button_handler env w ''Hi. Bye.'' (Some path)"
  have sp: "split_text ''Hi. Bye.'' = [''Hi.'', ''Bye.'']" by code_simp
  obtain d1 where w1: "write_file (out w) ?wav (Wave audio) (wav_time env) = Inr d1"
    using write_file_succeeds[OF assms(8)] by blast
  have "writable_at d1 ?txt = writable_at (out w) ?txt"
    using write_file_effect(2,4)[OF w1] by (intro writable_at_cong) simp_all
  then obtain d2 where w2: "write_file d1 ?txt (Text ''Hi. Bye.'') (txt_time env) = Inr d2"
    using write_file_succeeds assms(9) by blast
  note s = save_and_rotate[OF assms(1,2,3) w1 w2 assms(10,12)]
  have bg: "batch_generate env [''Hi.'', ''Bye.''] (replicate (length [''Hi.'', ''Bye.'']) ctx)
      = Inr tensor"
    using assms(6) by (simp add: numeral_2_eq_2)
  have h: "?w' = w\<lparr>out := snd (rotate_files d2),
        trace := trace w @ [St_empty, Progress 0, Status_info_encoding, Encode_audio path,
           Status_info_synthesizing (length [''Hi.'', ''Bye.'']),
           Batch_generate [''Hi.'', ''Bye.''] (replicate (length [''Hi.'', ''Bye.'']) ctx),
           Progress 80, Sf_write ?wav, Write_text ?txt, Rotate_files,
           Progress 100, Status_success_done, Sleep, Rerun]\<rparr>"
    by (rule handler_success[OF _ assms(4,5) sp _ bg assms(7) w1 w2 s(7)]) simp_all
  have o: "out ?w' = snd (rotate_files d2)" and r: "refs ?w' = refs w"
    and t: "trace ?w' = trace w @ [St_empty, Progress 0, Status_info_encoding, Encode_audio path,
           Status_info_synthesizing 2, Batch_generate [''Hi.'', ''Bye.''] [ctx, ctx],
           Progress 80, Sf_write ?wav, Write_text ?txt, Rotate_files,
           Progress 100, Status_success_done, Sleep, Rerun]"
    unfolding h by (simp_all add: numeral_2_eq_2)
  have pv: "(if length (strip (universal_newlines ''Hi. Bye.'')) > 60
             then take 60 (strip (universal_newlines ''Hi. Bye.'')) @ ''...''
             else strip (universal_newlines ''Hi. Bye.'')) = ''Hi. Bye.''"
    by code_simp
  from history_after_save[OF assms(1,2,3) w1 w2 assms(10,11,12)]
  have g: "\<exists>rest. get_history (out ?w')
          = Inr (\<lparr>h_wav = OUTPUT_FOLDER @ ?wav, h_text = ''Hi. Bye.'', h_name = ?wav\<rparr> # rest)"
    unfolding o pv .
  have 2: "\<exists>e. lookup (out ?w') ?wav = Some e \<and> e_data e = Wave audio"
    using s(1) unfolding o by blast
  have 3: "\<exists>e. lookup (out ?w') ?txt = Some e \<and> e_data e = Text ''Hi. Bye.''"
    using s(2) unfolding o by blast
  have 4: "\<forall>n. n \<noteq> ?wav \<and> n \<noteq> ?txt
           \<longrightarrow> lookup (out ?w') n = lookup (out w) n \<or> lookup (out ?w') n = None"
    using s(3) unfolding o .
  show ?thesis
    by (intro conjI t 2 3 4 g r)
qed

theorem hi_bye_end_to_end_witness:
  "wf_dir (out world0) \<and> listable (out world0) \<and> is_timestamp (now_stamp env0)
   \<and> writable_at (out world0) (''mira_'' @ now_stamp env0 @ ''.wav'')
   \<and> writable_at (out world0) (''mira_'' @ now_stamp env0 @ ''.txt'')
   \<and> glob_mira_wav (out world0) = [''mira_20240101-115959.wav'']
   \<and> mtime_of (out world0) ''mira_20240101-115959.wav'' < wav_time env0
   \<and> sidecar_readable (out world0) ''mira_20240101-115959.wav''
   \<and> audio_stat_ok (out world0)
   \<and> trace (generate_button_handler env0 world0 ''Hi. Bye.'' (Some ''voice.wav''))
       = [St_empty, Progress 0, Status_info_encoding, Encode_audio ''voice.wav'',
           Status_info_synthesizing 2, Batch_generate [''Hi.'', ''Bye.''] [[7], [7]],
           Progress 80, Sf_write ''mira_20240101-120000.wav'',
           Write_text ''mira_20240101-120000.txt'', Rotate_files,
           Progress 100, Status_success_done, Sleep, Rerun]
   \<and> get_history (out (generate_button_handler env0 world0 ''Hi. Bye.'' (Some ''voice.wav'')))
       = Inr [\<lparr>h_wav = ''./static/output/mira_20240101-120000.wav'', h_text = ''Hi. Bye.'',
                h_name = ''mira_20240101-120000.wav''\<rparr>,
              \<lparr>h_wav = ''./static/output/mira_20240101-115959.wav'', h_text = ''Old.'',
                h_name = ''mira_20240101-115959.wav''\<rparr>]
   \<and> lookup (out (generate_button_handler env0 world0 ''Hi. Bye.'' (Some ''voice.wav'')))
         ''mira_20240101-120000.txt'' = Some (plain 5 (Text ''Hi. Bye.''))
   \<and> lookup (out (generate_button_handler env0 world0 ''Hi. Bye.'' (Some ''voice.wav'')))
         ''mira_20240101-115959.wav'' = lookup (out world0) ''mira_20240101-115959.wav''"
proof -
  have 1: "wf_dir (out world0)" by code_simp
  have 2: "listable (out world0)" by code_simp
  have 3: "is_timestamp (now_stamp env0)" by code_simp
  have 4: "''voice.wav'' \<noteq> []" by simp
  have 5: "encode_audio env0 ''voice.wav'' = Inr [7]" by (simp add: env0_def)
  have 6: "batch_generate env0 [''Hi.'', ''Bye.''] [[7], [7]] = Inr [1, 2, 3]" by (simp add: env0_def)
  have 7: "to_float32 env0 [1, 2, 3] = Inr [1, 2, 3]" by (simp add: env0_def)
  have 8: "writable_at (out world0) (''mira_'' @ now_stamp env0 @ ''.wav'')" by code_simp
  have 9: "writable_at (out world0) (''mira_'' @ now_stamp env0 @ ''.txt'')" by code_simp
  have g: "glob_mira_wav (out world0) = [''mira_20240101-115959.wav'']" by code_simp
  have m: "mtime_of (out world0) ''mira_20240101-115959.wav'' < wav_time env0" by code_simp
  have r: "sidecar_readable (out world0) ''mira_20240101-115959.wav''" by code_simp
  have 10: "\<forall>m \<in> set (glob_mira_wav (out world0)). m \<noteq> ''mira_'' @ now_stamp env0 @ ''.wav''
            \<longrightarrow> mtime_of (out world0) m < wav_time env0"
    unfolding g using m by simp
  have 11: "\<forall>m \<in> set (glob_mira_wav (out world0)). sidecar_readable (out world0) m"
    unfolding g using r by simp
  have 12: "audio_stat_ok (out world0)" by code_simp
  have t0: "trace world0 = []" by (simp add: world0_def)
  have s0: "''mira_'' @ now_stamp env0 @ ''.wav'' = ''mira_20240101-120000.wav''"
     "''mira_'' @ now_stamp env0 @ ''.txt'' = ''mira_20240101-120000.txt''"
    by (simp_all add: env0_def)
  from hi_bye_end_to_end[OF 1 2 3 4 5 6 7 8 9 10 11 12]
  have t: "trace (generate_button_handler env0 world0 ''Hi. Bye.'' (Some ''voice.wav''))
       = [St_empty, Progress 0, Status_info_encoding, Encode_audio ''voice.wav'',
           Status_info_synthesizing 2, Batch_generate [''Hi.'', ''Bye.''] [[7], [7]],
           Progress 80, Sf_write ''mira_20240101-120000.wav'',
           Write_text ''mira_20240101-120000.txt'', Rotate_files,
           Progress 100, Status_success_done, Sleep, Rerun]"
    unfolding t0 s0 by simp
  have h: "get_history (out (generate_button_handler env0 world0 ''Hi. Bye.'' (Some ''voice.wav'')))
       = Inr [\<lparr>h_wav = ''./static/output/mira_20240101-120000.wav'', h_text = ''Hi. Bye.'',
                h_name = ''mira_20240101-120000.wav''\<rparr>,
              \<lparr>h_wav = ''./static/output/mira_20240101-115959.wav'', h_text = ''Old.'',
                h_name = ''mira_20240101-115959.wav''\<rparr>]"
    by code_simp
  have x: "lookup (out (generate_button_handler env0 world0 ''Hi. Bye.'' (Some ''voice.wav'')))
         ''mira_20240101-120000.txt'' = Some (plain 5 (Text ''Hi. Bye.''))"
    by code_simp
  have y: "lookup (out (generate_button_handler env0 world0 ''Hi. Bye.'' (Some ''voice.wav'')))
         ''mira_20240101-115959.wav'' = lookup (out world0) ''mira_20240101-115959.wav''"
    by code_simp
  from 1 2 3 8 9 g m r 12 t h x y show ?thesis by blast
qed

section \<open>The claim about rotation\<close>




end
